theory Spec2Isabelle
  imports Complex_Main "HOL-Library.Word"
begin

section \<open>Randomised decision tree training: data model\<close>

text \<open>
  The development embeds the training engine of \<^verbatim>\<open>train_rdt.cc\<close> and the feature
  evaluator \<^verbatim>\<open>sample_uv\<close> of \<^verbatim>\<open>utils.h\<close>.

  Conventions.
  \<^item> \<^verbatim>\<open>uint8_t\<close>, \<^verbatim>\<open>uint32_t\<close> and \<^verbatim>\<open>int32_t\<close> values are words; an \<^verbatim>\<open>int32_t\<close> is read
    with \<open>sint\<close>, an unsigned value with \<open>unat\<close>. Word arithmetic wraps as the C
    arithmetic on \<^verbatim>\<open>uint32_t\<close> does.
  \<^item> A finite \<^verbatim>\<open>float\<close> or \<^verbatim>\<open>half\<close> value is a real number and float arithmetic on
    finite values is exact: rounding is not part of the model. A float division
    by zero is written out (\<open>fdiv\<close>), and a float that may be NaN is a
    \<open>real option\<close> with \<open>None\<close> for NaN.
  \<^item> Loop counters that are bounded by a \<^verbatim>\<open>uint32_t\<close> limit are natural numbers.
\<close>

type_synonym u8 = "8 word"
type_synonym u32 = "32 word"
type_synonym i32 = "32 word"

text \<open>\<^verbatim>\<open>Int2D\<close> is a vector of two \<^verbatim>\<open>int32_t\<close>, \<^verbatim>\<open>UVPair\<close> a vector of four floats.\<close>

type_synonym Int2D = "i32 \<times> i32"
type_synonym UVPair = "real \<times> real \<times> real \<times> real"

subsection \<open>Float operations that can leave the finite range\<close>

text \<open>
  \<open>fdiv a b\<close> is the float division \<^verbatim>\<open>a / b\<close> of finite operands: with a zero
  divisor the C result is an infinity or NaN, here \<open>None\<close>.
\<close>

definition fdiv :: "real \<Rightarrow> real \<Rightarrow> real option" where
  "fdiv a b = (if b = 0 then None else Some (a / b))"

text \<open>
  \<open>flt a b\<close> is the float comparison \<^verbatim>\<open>a < b\<close> where \<open>b\<close> may be NaN: every
  comparison with NaN is false.
\<close>

definition flt :: "real \<Rightarrow> real option \<Rightarrow> bool" where
  "flt a b = (case b of None \<Rightarrow> False | Some t \<Rightarrow> a < t)"

text \<open>
  The conversion \<^verbatim>\<open>(int32_t)f\<close> truncates towards zero. For a value outside the
  range of \<^verbatim>\<open>int32_t\<close>, and for an infinity or NaN, the conversion is undefined in
  C++; the model takes what the x86-64 conversion instruction returns there,
  \<^verbatim>\<open>INT32_MIN\<close>.
\<close>

definition c_trunc :: "real \<Rightarrow> int" where
  "c_trunc r = (if 0 \<le> r then \<lfloor>r\<rfloor> else \<lceil>r\<rceil>)"

definition int32_of_float :: "real option \<Rightarrow> i32" where
  "int32_of_float f =
     (case f of
        None \<Rightarrow> word_of_int (- (2 ^ 31))
      | Some r \<Rightarrow>
          (if - (2 ^ 31) \<le> c_trunc r \<and> c_trunc r < 2 ^ 31 then word_of_int (c_trunc r)
           else word_of_int (- (2 ^ 31))))"

section \<open>Feature evaluator\<close>

text \<open>
  \<^verbatim>\<open>(int32_t)(pixel[k] + uv[j] / depth)\<close>: the pixel coordinate is converted to
  float, the offset divided by the depth is added, the sum is truncated.
\<close>

definition uv_coord :: "i32 \<Rightarrow> real \<Rightarrow> real \<Rightarrow> i32" where
  "uv_coord p off depth =
     int32_of_float (map_option (\<lambda>q. real_of_int (sint p) + q) (fdiv off depth))"

text \<open>
  \<^verbatim>\<open>u[0] >= 0 && u[0] < (int32_t)width && u[1] >= 0 && u[1] < (int32_t)height\<close>
\<close>

definition in_image :: "Int2D \<Rightarrow> u32 \<Rightarrow> u32 \<Rightarrow> bool" where
  "in_image u width height =
     (0 \<le> sint (fst u) \<and> sint (fst u) < sint width \<and>
      0 \<le> sint (snd u) \<and> sint (snd u) < sint height)"

text \<open>
  \<^verbatim>\<open>depth_image[(u[1] * width) + u[0]]\<close>: the index is computed in \<^verbatim>\<open>uint32_t\<close>.
  The read is guarded by \<open>in_image\<close>; the caller provides an image of
  \<open>width * height\<close> entries (see \<open>sample_uv_reads_inside\<close>).
\<close>

definition sample_uv ::
  "real list \<Rightarrow> u32 \<Rightarrow> u32 \<Rightarrow> Int2D \<Rightarrow> real \<Rightarrow> UVPair \<Rightarrow> real" where
  "sample_uv depth_image width height pixel depth uv =
     (case uv of (uv0, uv1, uv2, uv3) \<Rightarrow>
        let u = (uv_coord (fst pixel) uv0 depth, uv_coord (snd pixel) uv1 depth);
            v = (uv_coord (fst pixel) uv2 depth, uv_coord (snd pixel) uv3 depth);
            upixel = (if in_image u width height
                      then depth_image ! unat ((snd u * width) + fst u) else 1000);
            vpixel = (if in_image v width height
                      then depth_image ! unat ((snd v * width) + fst v) else 1000)
        in upixel - vpixel)"

subsection \<open>The evaluator as the specification words it\<close>

text \<open>
  Truncation of a real towards zero, the depth \<open>D\<close> at an integer position (the
  constant 1000 outside the image), and the feature \<open>D u - D v\<close>.
\<close>

definition trunc_toward_zero :: "real \<Rightarrow> int" where
  "trunc_toward_zero r = (if r < 0 then - \<lfloor>- r\<rfloor> else \<lfloor>r\<rfloor>)"




section \<open>Training data\<close>

text \<open>
  \<^verbatim>\<open>Int3D\<close> is declared outside the files at hand; the code uses its members
  \<^verbatim>\<open>xy\<close> (an \<^verbatim>\<open>Int2D\<close>) and \<^verbatim>\<open>i\<close> (the image index, here \<open>image_i\<close>).
\<close>

record Int3D =
  xy :: Int2D
  image_i :: u32

text \<open>
  \<^verbatim>\<open>TrainContext\<close>. The arrays behind the pointers are lists; a threshold is a float
  that may be NaN (see \<open>thresholds\<close>).
\<close>

record TrainContext =
  width :: i32
  height :: i32
  fov :: real
  n_labels :: u8
  n_images :: u32
  label_images :: "u8 list"
  depth_images :: "real list"
  n_uv :: u32
  uv_range :: real
  n_t :: u32
  t_range :: real
  max_depth :: u8
  n_pixels :: u32
  uvs :: "UVPair list"
  ts :: "real option list"

text \<open>
  \<^verbatim>\<open>NodeTrainData\<close>. The members \<^verbatim>\<open>id\<close>, \<^verbatim>\<open>depth\<close> and \<^verbatim>\<open>n_pixels\<close> are \<open>node_id\<close>,
  \<open>node_depth\<close> and \<open>node_n_pixels\<close>. The array \<^verbatim>\<open>pixels\<close> holds at least \<^verbatim>\<open>n_pixels\<close>
  entries (\<open>node_ok\<close>); the loops of the program visit the first \<^verbatim>\<open>n_pixels\<close>.
\<close>

record NodeTrainData =
  node_id :: u32
  node_depth :: u32
  node_n_pixels :: u32
  pixels :: "Int3D list"

definition node_ok :: "NodeTrainData \<Rightarrow> bool" where
  "node_ok data = (unat (node_n_pixels data) \<le> length (pixels data))"

definition node_pixels :: "NodeTrainData \<Rightarrow> Int3D list" where
  "node_pixels data = take (unat (node_n_pixels data)) (pixels data)"

text \<open>
  The ways a run ends without a result: \<^verbatim>\<open>exit(1)\<close> on a label out of range, the
  \<^verbatim>\<open>return 1\<close> of the checkpoint validation, and the two undefined behaviours the
  model writes out, a write past a pixel buffer and the use of the null hint pointer.
\<close>

datatype error =
    InvalidLabel nat nat
  | BufferOverrun
  | NullHints
  | CheckpointLabels
  | CheckpointFov
  | CheckpointDepth
  | AlreadyTrained

section \<open>Histogram engine\<close>

subsection \<open>\<^verbatim>\<open>normalize_histogram\<close>, \<^verbatim>\<open>calculate_shannon_entropy\<close>, \<^verbatim>\<open>calculate_gain\<close>\<close>

text \<open>
  \<^verbatim>\<open>sums\<close> is an \<^verbatim>\<open>Int2D\<close>: the addition \<^verbatim>\<open>sums[0] += histogram[i]\<close> is done in
  \<^verbatim>\<open>uint32_t\<close> and stored to an \<^verbatim>\<open>int32_t\<close>, and \<^verbatim>\<open>sums[0] > 0\<close> is a signed test.
  The buffer \<^verbatim>\<open>normalized\<close> is written entry by entry; the function returns the
  sums and the buffer.
\<close>

definition histogram_sums :: "u32 list \<Rightarrow> u8 \<Rightarrow> Int2D" where
  "histogram_sums histogram nl =
     fold (\<lambda>k (s0, s1). if 0 < histogram ! k then (s0 + histogram ! k, s1 + 1) else (s0, s1))
       [0..<unat nl] (0, 0)"

definition normalize_histogram :: "u32 list \<Rightarrow> u8 \<Rightarrow> real list \<Rightarrow> Int2D \<times> real list" where
  "normalize_histogram histogram nl normalized =
     (let sm = histogram_sums histogram nl
      in if 0 < sint (fst sm)
         then (sm, fold (\<lambda>k nh. nh[k := real (unat (histogram ! k)) / real_of_int (sint (fst sm))])
                     [0..<unat nl] normalized)
         else (sm, fold (\<lambda>k nh. nh[k := 0]) [0..<unat nl] normalized))"

definition calculate_shannon_entropy :: "real list \<Rightarrow> u8 \<Rightarrow> real" where
  "calculate_shannon_entropy normalized_histogram nl =
     fold (\<lambda>k entropy.
             let v = normalized_histogram ! k
             in if 0 < v \<and> v < 1 then entropy + (- v * log 2 v) else entropy)
       [0..<unat nl] 0"

text \<open>
  The pixel counts are \<^verbatim>\<open>uint32_t\<close> parameters. The worker calls the function with a
  non-zero \<^verbatim>\<open>n_pixels\<close> only.
\<close>

definition calculate_gain :: "real \<Rightarrow> u32 \<Rightarrow> real \<Rightarrow> u32 \<Rightarrow> real \<Rightarrow> u32 \<Rightarrow> real" where
  "calculate_gain entropy np l_entropy l_np r_entropy r_np =
     entropy - ((real (unat l_np) / real (unat np) * l_entropy) +
                (real (unat r_np) / real (unat np) * r_entropy))"

subsection \<open>\<^verbatim>\<open>accumulate_histograms\<close>\<close>

text \<open>
  The image of a pixel reference starts at \<^verbatim>\<open>i * width * height\<close>, the pixel sits
  at \<^verbatim>\<open>y * width + x\<close> in it; both are \<^verbatim>\<open>uint32_t\<close>. The reads are inside the arrays
  for the pixel references that \<^verbatim>\<open>create_node_train_data\<close> draws.
\<close>

definition image_idx :: "TrainContext \<Rightarrow> Int3D \<Rightarrow> u32" where
  "image_idx ctx p = image_i p * width ctx * height ctx"

definition pixel_idx :: "TrainContext \<Rightarrow> Int3D \<Rightarrow> u32" where
  "pixel_idx ctx p = (snd (xy p) * width ctx) + fst (xy p)"

definition depth_image_of :: "TrainContext \<Rightarrow> Int3D \<Rightarrow> real list" where
  "depth_image_of ctx p = drop (unat (image_idx ctx p)) (depth_images ctx)"

definition label_of :: "TrainContext \<Rightarrow> Int3D \<Rightarrow> u8" where
  "label_of ctx p = drop (unat (image_idx ctx p)) (label_images ctx) ! unat (pixel_idx ctx p)"

definition depth_of :: "TrainContext \<Rightarrow> Int3D \<Rightarrow> real" where
  "depth_of ctx p = depth_image_of ctx p ! unat (pixel_idx ctx p)"

text \<open>The feature of a pixel reference for the candidate \<open>uv\<close>.\<close>

definition pixel_feature :: "TrainContext \<Rightarrow> Int3D \<Rightarrow> UVPair \<Rightarrow> real" where
  "pixel_feature ctx p uv =
     sample_uv (depth_image_of ctx p) (width ctx) (height ctx) (xy p) (depth_of ctx p) uv"

text \<open>\<^verbatim>\<open>++histogram[k]\<close>\<close>

definition incr :: "u32 list \<Rightarrow> nat \<Rightarrow> u32 list" where
  "incr histogram k = histogram[k := histogram ! k + 1]"

text \<open>
  One step of the loop over the thresholds inside the loop over the candidates:
  the state is the block of histograms and the running \<^verbatim>\<open>lr_histogram_idx\<close>.
\<close>

definition lr_step ::
  "TrainContext \<Rightarrow> u8 \<Rightarrow> real list \<Rightarrow> nat \<times> nat \<Rightarrow> u32 list \<times> nat \<Rightarrow> u32 list \<times> nat" where
  "lr_step ctx label samples ct s =
     (case ct of (c, t) \<Rightarrow> case s of (lr_histograms, lr_histogram_idx) \<Rightarrow>
        (incr lr_histograms
           (if flt (samples ! c) (ts ctx ! t)
            then lr_histogram_idx + unat label
            else lr_histogram_idx + unat (n_labels ctx) + unat label),
         lr_histogram_idx + unat (n_labels ctx) * 2))"

text \<open>
  The body of the loop over the pixels. A label outside the label range ends the
  program (\<^verbatim>\<open>exit(1)\<close>). The two nested loops run over the pairs
  \<open>(c, t)\<close> in row-major order.
\<close>

definition accumulate_pixel ::
  "TrainContext \<Rightarrow> NodeTrainData \<Rightarrow> nat \<Rightarrow> nat \<Rightarrow> Int3D \<Rightarrow> u32 list \<times> u32 list \<Rightarrow>
   error + (u32 list \<times> u32 list)" where
  "accumulate_pixel ctx data c_start c_end p hs =
     (case hs of (root_histogram, lr_histograms) \<Rightarrow>
        let label = label_of ctx p
        in if n_labels ctx \<le> label
           then Inl (InvalidLabel (unat label) (unat (ucast (n_labels ctx) - 1 :: u32)))
           else
             let root_histogram' = incr root_histogram (unat label)
             in if ucast (max_depth ctx) - 1 \<le> node_depth data
                then Inr (root_histogram', lr_histograms)
                else
                  let samples = map (\<lambda>c. pixel_feature ctx p (uvs ctx ! c)) [c_start..<c_end]
                  in Inr (root_histogram',
                          fst (fold (lr_step ctx label samples)
                                 (List.product [0..<c_end - c_start] [0..<unat (n_t ctx)])
                                 (lr_histograms, 0))))"

fun accumulate_loop ::
  "TrainContext \<Rightarrow> NodeTrainData \<Rightarrow> nat \<Rightarrow> nat \<Rightarrow> Int3D list \<Rightarrow> u32 list \<times> u32 list \<Rightarrow>
   error + (u32 list \<times> u32 list)" where
  "accumulate_loop ctx data c_start c_end [] hs = Inr hs"
| "accumulate_loop ctx data c_start c_end (p # ps) hs =
     (case accumulate_pixel ctx data c_start c_end p hs of
        Inl e \<Rightarrow> Inl e
      | Inr hs' \<Rightarrow> accumulate_loop ctx data c_start c_end ps hs')"

text \<open>
  The run modelled is the one in which the flag \<^verbatim>\<open>interrupted\<close> stays clear: when
  it is set, the coordinator drops what the workers computed.
\<close>

definition accumulate_histograms ::
  "TrainContext \<Rightarrow> NodeTrainData \<Rightarrow> nat \<Rightarrow> nat \<Rightarrow> u32 list \<Rightarrow> u32 list \<Rightarrow>
   error + (u32 list \<times> u32 list)" where
  "accumulate_histograms ctx data c_start c_end root_histogram lr_histograms =
     accumulate_loop ctx data c_start c_end (node_pixels data) (root_histogram, lr_histograms)"

section \<open>Gain search worker\<close>

text \<open>
  The cells a worker writes: the shared or private buffer \<^verbatim>\<open>root_nhistogram\<close>, the
  scratch buffer \<^verbatim>\<open>nhistogram\<close>, and the slots \<^verbatim>\<open>best_gain\<close>, \<^verbatim>\<open>best_uv\<close>, \<^verbatim>\<open>best_t\<close>
  and \<^verbatim>\<open>n_lr_pixels\<close> it publishes. The stripe is \<open>[c_start, c_end)\<close>.
\<close>

record TrainThreadData =
  c_start :: nat
  c_end :: nat
  root_nhistogram :: "real list"
  nhistogram :: "real list"
  best_gain :: real
  best_uv :: nat
  best_t :: nat
  n_lr_pixels :: "u32 \<times> u32"

text \<open>
  The body of the candidate loop for the pair \<open>(i, j)\<close>; the state is the
  worker's cells and the running \<^verbatim>\<open>lr_histo_base\<close>. \<^verbatim>\<open>continue\<close> leaves the published
  slots as they are.
\<close>

definition candidate ::
  "TrainContext \<Rightarrow> u32 list \<Rightarrow> real \<Rightarrow> Int2D \<Rightarrow> nat \<times> nat \<Rightarrow> TrainThreadData \<times> nat \<Rightarrow>
   TrainThreadData \<times> nat" where
  "candidate ctx lr_histograms entropy root_n_pixels ij s =
     (case ij of (i, j) \<Rightarrow> case s of (td, lr_histo_base) \<Rightarrow>
        let next = lr_histo_base + unat (n_labels ctx) * 2;
            (l_n_pixels, nh1) =
              normalize_histogram (drop lr_histo_base lr_histograms) (n_labels ctx) (nhistogram td)
        in if fst l_n_pixels = 0 \<or> fst l_n_pixels = fst root_n_pixels
           then (td\<lparr>nhistogram := nh1\<rparr>, next)
           else
             let l_entropy = calculate_shannon_entropy nh1 (n_labels ctx);
                 (r_n_pixels, nh2) =
                   normalize_histogram (drop (lr_histo_base + unat (n_labels ctx)) lr_histograms)
                     (n_labels ctx) nh1;
                 r_entropy = calculate_shannon_entropy nh2 (n_labels ctx);
                 gain = calculate_gain entropy (fst root_n_pixels) l_entropy (fst l_n_pixels)
                          r_entropy (fst r_n_pixels)
             in if best_gain td < gain
                then (td\<lparr>nhistogram := nh2, best_gain := gain, best_uv := i, best_t := j,
                         n_lr_pixels := (fst l_n_pixels, fst r_n_pixels)\<rparr>, next)
                else (td\<lparr>nhistogram := nh2\<rparr>, next))"

text \<open>
  One round of the loop of \<^verbatim>\<open>thread_body\<close>, between the two barriers, for the node
  \<open>data\<close>: clear the accumulators, accumulate, normalise the root histogram,
  search.
\<close>

definition thread_body ::
  "TrainContext \<Rightarrow> NodeTrainData \<Rightarrow> TrainThreadData \<Rightarrow> error + TrainThreadData" where
  "thread_body ctx data td =
     (case accumulate_histograms ctx data (c_start td) (c_end td)
             (replicate (unat (n_labels ctx)) 0)
             (replicate (unat (n_labels ctx) * (c_end td - c_start td) * unat (n_t ctx) * 2) 0) of
        Inl e \<Rightarrow> Inl e
      | Inr (root_histogram, lr_histograms) \<Rightarrow>
          let (root_n_pixels, root_nh) =
                normalize_histogram root_histogram (n_labels ctx) (root_nhistogram td);
              td0 = td\<lparr>root_nhistogram := root_nh, best_gain := 0\<rparr>
          in if 1 < sint (snd root_n_pixels) \<and> node_depth data < ucast (max_depth ctx) - 1
             then
               let entropy = calculate_shannon_entropy root_nh (n_labels ctx)
               in Inr (fst (fold (candidate ctx lr_histograms entropy root_n_pixels)
                              (List.product [c_start td..<c_end td] [0..<unat (n_t ctx)])
                              (td0, 0)))
             else Inr td0)"

section \<open>Partitioner\<close>

text \<open>
  \<^verbatim>\<open>collect_pixels\<close> reads the depth of the pixel with an \<^verbatim>\<open>int\<close> index, where
  \<^verbatim>\<open>accumulate_histograms\<close> uses a \<^verbatim>\<open>uint32_t\<close>.
\<close>

definition depth_of_int :: "TrainContext \<Rightarrow> Int3D \<Rightarrow> real" where
  "depth_of_int ctx p = depth_image_of ctx p ! nat (sint (pixel_idx ctx p))"

definition collect_value :: "TrainContext \<Rightarrow> Int3D \<Rightarrow> UVPair \<Rightarrow> real" where
  "collect_value ctx p uv =
     sample_uv (depth_image_of ctx p) (width ctx) (height ctx) (xy p) (depth_of_int ctx p) uv"

text \<open>
  The loop over the pixels of the node. The two buffers have the capacities they
  were allocated with; \<^verbatim>\<open>l_index\<close> and \<^verbatim>\<open>r_index\<close> are the lengths of the lists. A
  write past a buffer is undefined in the source, here \<open>BufferOverrun\<close>.
\<close>

fun collect_loop ::
  "TrainContext \<Rightarrow> UVPair \<Rightarrow> real option \<Rightarrow> nat \<Rightarrow> nat \<Rightarrow> Int3D list \<Rightarrow>
   Int3D list \<times> Int3D list \<Rightarrow> error + (Int3D list \<times> Int3D list)" where
  "collect_loop ctx uv t l_cap r_cap [] lr = Inr lr"
| "collect_loop ctx uv t l_cap r_cap (pixel # ps) lr =
     (case lr of (l_pixels, r_pixels) \<Rightarrow>
        if flt (collect_value ctx pixel uv) t
        then (if length l_pixels < l_cap
              then collect_loop ctx uv t l_cap r_cap ps (l_pixels @ [pixel], r_pixels)
              else Inl BufferOverrun)
        else (if length r_pixels < r_cap
              then collect_loop ctx uv t l_cap r_cap ps (l_pixels, r_pixels @ [pixel])
              else Inl BufferOverrun))"

text \<open>
  The function returns the two pixel lists and the updated \<^verbatim>\<open>n_lr_pixels\<close>.
  \<^verbatim>\<open>xrealloc\<close> changes the capacity of a buffer, not its content.
\<close>

definition collect_pixels ::
  "TrainContext \<Rightarrow> NodeTrainData \<Rightarrow> UVPair \<Rightarrow> real option \<Rightarrow> u32 \<times> u32 \<Rightarrow>
   error + (Int3D list \<times> Int3D list \<times> (u32 \<times> u32))" where
  "collect_pixels ctx data uv t n_lr =
     (let l_cap = (if fst n_lr \<noteq> 0 then unat (fst n_lr) else unat (node_n_pixels data));
          r_cap = (if snd n_lr \<noteq> 0 then unat (snd n_lr) else unat (node_n_pixels data))
      in case collect_loop ctx uv t l_cap r_cap (node_pixels data) ([], []) of
           Inl e \<Rightarrow> Inl e
         | Inr (l_pixels, r_pixels) \<Rightarrow>
             let l_index = (of_nat (length l_pixels) :: u32);
                 r_index = (of_nat (length r_pixels) :: u32);
                 n0 = (if fst n_lr \<noteq> l_index then l_index else fst n_lr);
                 n1 = (if snd n_lr \<noteq> r_index then r_index else snd n_lr)
             in Inr (l_pixels, r_pixels, (n0, n1)))"

section \<open>Setup: the candidate thresholds\<close>



section \<open>Tree trainer\<close>

text \<open>
  \<^verbatim>\<open>Node\<close>, the record of the output tree; its members \<^verbatim>\<open>uv\<close> and \<^verbatim>\<open>t\<close> are
  \<open>node_uv\<close> and \<open>node_t\<close>.
\<close>

record Node =
  node_uv :: UVPair
  node_t :: "real option"
  label_pr_idx :: u32

text \<open>
  \<^verbatim>\<open>create_node_train_data\<close>. Without a pixel array the node is the root and draws
  \<^verbatim>\<open>n_images * n_pixels\<close> pixel references from the random number generator; the
  drawn references are the parameter \<open>drawn\<close>.
\<close>

definition create_node_train_data ::
  "TrainContext \<Rightarrow> Int3D list \<Rightarrow> u32 \<Rightarrow> u32 \<Rightarrow> u32 \<Rightarrow> Int3D list option \<Rightarrow> NodeTrainData" where
  "create_node_train_data ctx drawn ident depth np px =
     (case px of
        Some ps \<Rightarrow> \<lparr>node_id = ident, node_depth = depth, node_n_pixels = np, pixels = ps\<rparr>
      | None \<Rightarrow> \<lparr>node_id = ident, node_depth = depth,
                 node_n_pixels = n_images ctx * n_pixels ctx, pixels = drawn\<rparr>)"

text \<open>
  The state of the coordinator in \<^verbatim>\<open>main\<close>: the tree, the queue of nodes to train,
  the leaf tables and their count, and the cells of the workers. Worker \<open>k\<close> owns
  \<^verbatim>\<open>best_gains[k]\<close>, \<^verbatim>\<open>best_uvs[k]\<close>, \<^verbatim>\<open>best_ts[k]\<close> and \<^verbatim>\<open>all_n_lr_pixels[2k..]\<close>; the
  buffer \<^verbatim>\<open>root_nhistogram\<close> of \<^verbatim>\<open>main\<close> is the one of worker 0.
\<close>

record Trainer =
  tree :: "Node list"
  train_queue :: "NodeTrainData list"
  n_histograms :: u32
  tree_histograms :: "real list list"
  workers :: "TrainThreadData list"

text \<open>
  The stripes \<^verbatim>\<open>main\<close> gives to the workers: \<^verbatim>\<open>n_c = n_uv / n_threads\<close>, worker \<open>k\<close>
  starts at \<^verbatim>\<open>k * n_c\<close> and ends at \<^verbatim>\<open>(k + 1) * n_c\<close>, the last one at \<^verbatim>\<open>n_uv\<close>.
\<close>

definition stripe :: "u32 \<Rightarrow> u32 \<Rightarrow> nat \<Rightarrow> nat \<times> nat" where
  "stripe nuv n_threads k =
     (let n_c = nuv div n_threads
      in (unat (of_nat k * n_c),
          if of_nat k = n_threads - 1 then unat nuv else unat ((of_nat k + 1) * n_c)))"

text \<open>
  Between the two barriers every worker runs one round on the node. The workers
  write disjoint cells, so the rounds are taken one after the other.
\<close>

fun run_workers ::
  "TrainContext \<Rightarrow> NodeTrainData \<Rightarrow> TrainThreadData list \<Rightarrow> error + TrainThreadData list" where
  "run_workers ctx data [] = Inr []"
| "run_workers ctx data (td # tds) =
     (case thread_body ctx data td of
        Inl e \<Rightarrow> Inl e
      | Inr td' \<Rightarrow>
          (case run_workers ctx data tds of
             Inl e \<Rightarrow> Inl e
           | Inr tds' \<Rightarrow> Inr (td' # tds')))"

text \<open>
  The reduction over the workers: the state is \<^verbatim>\<open>best_gain\<close>, \<^verbatim>\<open>best_uv\<close>, \<^verbatim>\<open>best_t\<close>
  and the pointer \<^verbatim>\<open>n_lr_pixels\<close>, which is null or points to the cells of a worker.
\<close>

definition reduce_step ::
  "TrainThreadData list \<Rightarrow> nat \<Rightarrow> real \<times> nat \<times> nat \<times> nat option \<Rightarrow>
   real \<times> nat \<times> nat \<times> nat option" where
  "reduce_step ws k s =
     (case s of (bg, buv, bt, sel) \<Rightarrow>
        if bg < best_gain (ws ! k)
        then (best_gain (ws ! k), best_uv (ws ! k), best_t (ws ! k), Some k)
        else (bg, buv, bt, sel))"

definition reduce_workers :: "TrainThreadData list \<Rightarrow> real \<times> nat \<times> nat \<times> nat option" where
  "reduce_workers ws = fold (reduce_step ws) [0..<length ws] (0, 0, 0, None)"

text \<open>
  The body of the training loop for the node at the head of the queue, in the run
  in which \<^verbatim>\<open>interrupted\<close> stays clear.
\<close>

definition train_node :: "TrainContext \<Rightarrow> Trainer \<Rightarrow> error + Trainer" where
  "train_node ctx tr =
     (case train_queue tr of
        [] \<Rightarrow> Inr tr
      | node_data # rest \<Rightarrow>
          (case run_workers ctx node_data (workers tr) of
             Inl e \<Rightarrow> Inl e
           | Inr ws \<Rightarrow>
               (case reduce_workers ws of (bg, buv, bt, sel) \<Rightarrow>
                  if 0 < bg \<and> node_depth node_data + 1 < ucast (max_depth ctx)
                  then
                    (case sel of
                       None \<Rightarrow> Inl NullHints
                     | Some w \<Rightarrow>
                         (case collect_pixels ctx node_data (uvs ctx ! buv) (ts ctx ! bt)
                                 (n_lr_pixels (ws ! w)) of
                            Inl e \<Rightarrow> Inl e
                          | Inr (l_pixels, r_pixels, n_lr) \<Rightarrow>
                              let ident = 2 * node_id node_data + 1;
                                  depth = node_depth node_data + 1;
                                  ldata = create_node_train_data ctx [] ident depth (fst n_lr)
                                            (Some l_pixels);
                                  rdata = create_node_train_data ctx [] (ident + 1) depth (snd n_lr)
                                            (Some r_pixels)
                              in Inr (tr\<lparr>tree := (tree tr)[unat (node_id node_data) :=
                                                 \<lparr>node_uv = uvs ctx ! buv, node_t = ts ctx ! bt,
                                                  label_pr_idx = 0\<rparr>],
                                         train_queue := rest @ [ldata, rdata],
                                         workers := ws[w := (ws ! w)\<lparr>n_lr_pixels := n_lr\<rparr>]\<rparr>)))
                  else
                    Inr (tr\<lparr>tree := (tree tr)[unat (node_id node_data) :=
                                       (tree tr ! unat (node_id node_data))
                                         \<lparr>label_pr_idx := n_histograms tr + 1\<rparr>],
                               n_histograms := n_histograms tr + 1,
                               tree_histograms := tree_histograms tr @
                                 [take (unat (n_labels ctx)) (root_nhistogram (ws ! 0))],
                               train_queue := rest,
                               workers := ws\<rparr>))))"

section \<open>Checkpoint manager\<close>




text \<open>The tree \<^verbatim>\<open>main\<close> allocates with \<^verbatim>\<open>xcalloc\<close>: every member of every node is zero.\<close>

definition zero_node :: Node where
  "zero_node = \<lparr>node_uv = (0, 0, 0, 0), node_t = Some 0, label_pr_idx = 0\<rparr>"






section \<open>A small training set\<close>

text \<open>
  One image of two pixels with the labels 0 and 1 and the depths 1 and 3, one
  candidate offset and two thresholds. The feature of the first pixel is \<open>3 - 1\<close>, the
  feature of the second is \<open>3 - 3\<close>; the threshold \<open>1 / 2\<close> separates the two labels.
\<close>

definition example_ctx :: TrainContext where
  "example_ctx =
     \<lparr>width = 2, height = 1, fov = 1, n_labels = 2, n_images = 1,
      label_images = [0, 1], depth_images = [1, 3],
      n_uv = 1, uv_range = 1, n_t = 2, t_range = 1, max_depth = 3, n_pixels = 2,
      uvs = [(1, 0, 0, 0)], ts = [Some (- 1 / 2), Some (1 / 2)]\<rparr>"

definition example_node :: NodeTrainData where
  "example_node =
     \<lparr>node_id = 0, node_depth = 0, node_n_pixels = 2,
      pixels = [\<lparr>xy = (0, 0), image_i = 0\<rparr>, \<lparr>xy = (1, 0), image_i = 0\<rparr>]\<rparr>"

text \<open>
  A worker with the whole stripe and a worker with an empty stripe; the cells hold
  what an earlier node left there.
\<close>

definition example_worker :: TrainThreadData where
  "example_worker =
     \<lparr>c_start = 0, c_end = 1, root_nhistogram = [1, 0], nhistogram = [0, 0],
      best_gain = 7, best_uv = 9, best_t = 9, n_lr_pixels = (9, 9)\<rparr>"

definition idle_worker :: TrainThreadData where
  "idle_worker =
     \<lparr>c_start = 0, c_end = 0, root_nhistogram = [1, 0], nhistogram = [0, 0],
      best_gain = 7, best_uv = 9, best_t = 9, n_lr_pixels = (9, 9)\<rparr>"

definition example_trainer :: Trainer where
  "example_trainer =
     \<lparr>tree = replicate 7 (zero_node\<lparr>label_pr_idx := - 1\<rparr>),
      train_queue = [example_node], n_histograms = 0, tree_histograms = [],
      workers = [idle_worker, example_worker]\<rparr>"


section \<open>What the claims speak about\<close>

text \<open>
  The definitions of this section are not translated from the source: they give
  names to the quantities the claims speak about and to the invariants of the loops.
\<close>

subsection \<open>Counts over the pixels of a node\<close>

text \<open>
  The labels of all pixels are in range (otherwise the program exits); the number of
  pixels with label \<open>k\<close>; the side a pixel takes for the candidate offset \<open>c\<close> and
  the threshold \<open>k\<close>, as \<^verbatim>\<open>accumulate_histograms\<close> decides it; the number of pixels on
  each side.
\<close>

definition labels_ok :: "TrainContext \<Rightarrow> Int3D list \<Rightarrow> bool" where
  "labels_ok ctx ps = (\<forall>p \<in> set ps. label_of ctx p < n_labels ctx)"

definition n_label :: "TrainContext \<Rightarrow> Int3D list \<Rightarrow> nat \<Rightarrow> nat" where
  "n_label ctx ps k = length (filter (\<lambda>p. unat (label_of ctx p) = k) ps)"

definition goes_left :: "TrainContext \<Rightarrow> Int3D \<Rightarrow> nat \<Rightarrow> nat \<Rightarrow> bool" where
  "goes_left ctx p c k = flt (pixel_feature ctx p (uvs ctx ! c)) (ts ctx ! k)"

definition n_left :: "TrainContext \<Rightarrow> Int3D list \<Rightarrow> nat \<Rightarrow> nat \<Rightarrow> nat" where
  "n_left ctx ps c k = length (filter (\<lambda>p. goes_left ctx p c k) ps)"

definition n_right :: "TrainContext \<Rightarrow> Int3D list \<Rightarrow> nat \<Rightarrow> nat \<Rightarrow> nat" where
  "n_right ctx ps c k = length (filter (\<lambda>p. \<not> goes_left ctx p c k) ps)"

text \<open>
  A split is trivial when one of its sides is empty or holds all pixels.
\<close>

definition trivial_split :: "TrainContext \<Rightarrow> Int3D list \<Rightarrow> nat \<Rightarrow> nat \<Rightarrow> bool" where
  "trivial_split ctx ps c k =
     (n_left ctx ps c k = 0 \<or> n_left ctx ps c k = length ps \<or>
      n_right ctx ps c k = 0 \<or> n_right ctx ps c k = length ps)"

text \<open>
  The histogram of the labels of a node, the number \<open>k_root\<close> of its non-empty
  labels, and the distribution \<^verbatim>\<open>normalize_histogram\<close> derives from a histogram: both
  are functions of the node alone.
\<close>

definition node_histogram :: "TrainContext \<Rightarrow> NodeTrainData \<Rightarrow> u32 list" where
  "node_histogram ctx data =
     map (\<lambda>k. of_nat (n_label ctx (node_pixels data) k)) [0..<unat (n_labels ctx)]"

definition k_root :: "TrainContext \<Rightarrow> NodeTrainData \<Rightarrow> nat" where
  "k_root ctx data =
     length (filter (\<lambda>k. 0 < n_label ctx (node_pixels data) k) [0..<unat (n_labels ctx)])"

definition normalized_of :: "u32 list \<Rightarrow> u8 \<Rightarrow> real list" where
  "normalized_of h nl =
     (if 0 < sint (fst (histogram_sums h nl))
      then map (\<lambda>k. real (unat (h ! k)) / real_of_int (sint (fst (histogram_sums h nl)))) [0..<unat nl]
      else replicate (unat nl) 0)"

definition node_distribution :: "TrainContext \<Rightarrow> NodeTrainData \<Rightarrow> real list" where
  "node_distribution ctx data = normalized_of (node_histogram ctx data) (n_labels ctx)"

definition root_normalized :: "TrainContext \<Rightarrow> NodeTrainData \<Rightarrow> real list \<Rightarrow> real list" where
  "root_normalized ctx data buf =
     snd (normalize_histogram (node_histogram ctx data) (n_labels ctx) buf)"

text \<open>
  The number of pixels a histogram counts, the term one entry contributes to the entropy
  that \<^verbatim>\<open>calculate_shannon_entropy\<close> adds up, and \<open>c * ln (c / s)\<close> with the value
  \<open>0\<close> at \<open>c = 0\<close>.
\<close>

definition hist_total :: "u32 list \<Rightarrow> u8 \<Rightarrow> nat" where
  "hist_total h nl = (\<Sum>k = 0..<unat nl. unat (h ! k))"

definition ent :: "real \<Rightarrow> real" where
  "ent v = (if 0 < v \<and> v < 1 then - v * log 2 v else 0)"

definition xlnx :: "real \<Rightarrow> real \<Rightarrow> real" where
  "xlnx c s = (if 0 < c then c * ln (c / s) else 0)"

text \<open>
  The two tests of the source: the histogram engine skips the left and right
  histograms at the final depth, and the worker searches only a node with more than
  one label above the final depth.
\<close>

definition final_depth :: "TrainContext \<Rightarrow> NodeTrainData \<Rightarrow> bool" where
  "final_depth ctx data = (ucast (max_depth ctx) - 1 \<le> node_depth data)"

definition searches :: "TrainContext \<Rightarrow> NodeTrainData \<Rightarrow> bool" where
  "searches ctx data = (1 < k_root ctx data \<and> node_depth data < ucast (max_depth ctx) - 1)"

subsection \<open>The block of left and right histograms\<close>

text \<open>
  The sum of \<open>n\<close> entries from position \<open>b\<close>; the size of the block of a stripe; the
  position of the histograms of the candidate \<open>c\<close> and the threshold \<open>k\<close>; the root
  histogram after the pixels \<open>ps\<close>; the decision for a pair inside the loop.
\<close>

definition slice_sum :: "u32 list \<Rightarrow> nat \<Rightarrow> nat \<Rightarrow> u32" where
  "slice_sum h b n = sum_list (take n (drop b h))"

definition lr_size :: "TrainContext \<Rightarrow> nat \<Rightarrow> nat \<Rightarrow> nat" where
  "lr_size ctx cs ce = unat (n_labels ctx) * (ce - cs) * unat (n_t ctx) * 2"

definition blk :: "TrainContext \<Rightarrow> nat \<Rightarrow> nat \<Rightarrow> nat \<Rightarrow> nat" where
  "blk ctx cs c k = ((c - cs) * unat (n_t ctx) + k) * (unat (n_labels ctx) * 2)"

definition root_after :: "TrainContext \<Rightarrow> Int3D list \<Rightarrow> u32 list \<Rightarrow> u32 list" where
  "root_after ctx ps rh = fold (\<lambda>p r. incr r (unat (label_of ctx p))) ps rh"

definition decide :: "TrainContext \<Rightarrow> real list \<Rightarrow> nat \<times> nat \<Rightarrow> bool" where
  "decide ctx samples ct = flt (samples ! fst ct) (ts ctx ! snd ct)"

text \<open>
  What the loop over the pairs does to the block for one pixel, and what the loop
  over the pixels does: every pair receives the pixel on exactly one side.
\<close>

definition lr_fold_spec ::
  "TrainContext \<Rightarrow> real list \<Rightarrow> nat \<Rightarrow> (nat \<times> nat) list \<Rightarrow> u32 list \<Rightarrow> nat \<Rightarrow> u32 list \<times> nat \<Rightarrow> bool" where
  "lr_fold_spec ctx samples n cts lr idx r =
     (snd r = idx + 2 * n * length cts \<and> length (fst r) = length lr \<and>
      (\<forall>b m. b + m \<le> idx \<longrightarrow> slice_sum (fst r) b m = slice_sum lr b m) \<and>
      (\<forall>k < length cts.
          slice_sum (fst r) (idx + 2 * n * k) n =
          slice_sum lr (idx + 2 * n * k) n + (if decide ctx samples (cts ! k) then 1 else 0)) \<and>
      (\<forall>k < length cts.
          slice_sum (fst r) (idx + 2 * n * k + n) n =
          slice_sum lr (idx + 2 * n * k + n) n + (if decide ctx samples (cts ! k) then 0 else 1)))"

definition acc_spec ::
  "TrainContext \<Rightarrow> nat \<Rightarrow> nat \<Rightarrow> Int3D list \<Rightarrow> u32 list \<Rightarrow> u32 list \<Rightarrow> bool" where
  "acc_spec ctx cs ce ps lr lr' =
     (length lr' = length lr \<and>
      (\<forall>c k. cs \<le> c \<and> c < ce \<and> k < unat (n_t ctx) \<longrightarrow>
         slice_sum lr' (blk ctx cs c k) (unat (n_labels ctx)) =
           slice_sum lr (blk ctx cs c k) (unat (n_labels ctx)) + of_nat (n_left ctx ps c k) \<and>
         slice_sum lr' (blk ctx cs c k + unat (n_labels ctx)) (unat (n_labels ctx)) =
           slice_sum lr (blk ctx cs c k + unat (n_labels ctx)) (unat (n_labels ctx)) +
           of_nat (n_right ctx ps c k)))"

subsection \<open>The slots of a worker\<close>

text \<open>
  The slots a worker publishes, and the invariant of the candidate loop: the gain is
  not negative; while it is zero the other slots are as they were before the round;
  once it is positive the slots hold a pair of the stripe whose split is not trivial,
  with its two pixel counts.
\<close>

definition published :: "TrainThreadData \<Rightarrow> real \<times> nat \<times> nat \<times> (u32 \<times> u32)" where
  "published td = (best_gain td, best_uv td, best_t td, n_lr_pixels td)"

definition search_inv ::
  "TrainContext \<Rightarrow> Int3D list \<Rightarrow> nat \<Rightarrow> nat \<Rightarrow> real list \<Rightarrow> nat \<times> nat \<times> (u32 \<times> u32) \<Rightarrow>
   TrainThreadData \<Rightarrow> bool" where
  "search_inv ctx ps cs ce rnh old td =
     (root_nhistogram td = rnh \<and> c_start td = cs \<and> c_end td = ce \<and> 0 \<le> best_gain td \<and>
      (best_gain td = 0 \<longrightarrow> (best_uv td, best_t td, n_lr_pixels td) = old) \<and>
      (0 < best_gain td \<longrightarrow>
         cs \<le> best_uv td \<and> best_uv td < ce \<and> best_t td < unat (n_t ctx) \<and>
         \<not> trivial_split ctx ps (best_uv td) (best_t td) \<and>
         n_lr_pixels td = (of_nat (n_left ctx ps (best_uv td) (best_t td)),
                           of_nat (n_right ctx ps (best_uv td) (best_t td)))))"

subsection \<open>The coordinator\<close>

text \<open>
  The result of the reduction over the first \<open>n\<close> workers: without a selected worker
  the gain is zero and no worker has a positive gain; a selected worker has a
  positive gain, no worker has a greater one and no earlier worker has an equal one.
\<close>

definition reduced ::
  "TrainThreadData list \<Rightarrow> nat \<Rightarrow> real \<times> nat \<times> nat \<times> nat option \<Rightarrow> bool" where
  "reduced ws n s =
     (case s of (bg, buv, bt, sel) \<Rightarrow>
        (case sel of
           None \<Rightarrow> bg = 0 \<and> buv = 0 \<and> bt = 0 \<and> (\<forall>k<n. best_gain (ws ! k) \<le> 0)
         | Some w \<Rightarrow>
             w < n \<and> bg = best_gain (ws ! w) \<and> buv = best_uv (ws ! w) \<and> bt = best_t (ws ! w) \<and>
             0 < bg \<and> (\<forall>k<n. best_gain (ws ! k) \<le> bg) \<and> (\<forall>k<w. best_gain (ws ! k) < bg)))"

text \<open>The state after the node at the head of the queue became a leaf.\<close>

definition make_leaf ::
  "TrainContext \<Rightarrow> Trainer \<Rightarrow> NodeTrainData \<Rightarrow> NodeTrainData list \<Rightarrow> TrainThreadData list \<Rightarrow>
   Trainer" where
  "make_leaf ctx tr node_data rest ws =
     tr\<lparr>tree := (tree tr)[unat (node_id node_data) :=
                  (tree tr ! unat (node_id node_data))\<lparr>label_pr_idx := n_histograms tr + 1\<rparr>],
        n_histograms := n_histograms tr + 1,
        tree_histograms := tree_histograms tr @
          [take (unat (n_labels ctx)) (root_nhistogram (ws ! 0))],
        train_queue := rest,
        workers := ws\<rparr>"

text \<open>
  The two children of a split, and the condition under which the buffers that
  \<^verbatim>\<open>collect_pixels\<close> allocates from the hints hold them.
\<close>

definition left_pixels :: "TrainContext \<Rightarrow> NodeTrainData \<Rightarrow> UVPair \<Rightarrow> real option \<Rightarrow> Int3D list" where
  "left_pixels ctx data uv t = filter (\<lambda>p. flt (collect_value ctx p uv) t) (node_pixels data)"

definition right_pixels :: "TrainContext \<Rightarrow> NodeTrainData \<Rightarrow> UVPair \<Rightarrow> real option \<Rightarrow> Int3D list" where
  "right_pixels ctx data uv t = filter (\<lambda>p. \<not> flt (collect_value ctx p uv) t) (node_pixels data)"

definition hints_fit ::
  "TrainContext \<Rightarrow> NodeTrainData \<Rightarrow> UVPair \<Rightarrow> real option \<Rightarrow> u32 \<times> u32 \<Rightarrow> bool" where
  "hints_fit ctx data uv t n_lr =
     ((fst n_lr = 0 \<or> length (left_pixels ctx data uv t) \<le> unat (fst n_lr)) \<and>
      (snd n_lr = 0 \<or> length (right_pixels ctx data uv t) \<le> unat (snd n_lr)))"

text \<open>Three workers, the second and the third with the same gain.\<close>

definition example_gains :: "TrainThreadData list" where
  "example_gains =
     [example_worker\<lparr>best_gain := 1 / 2, best_uv := 3\<rparr>,
      example_worker\<lparr>best_gain := 1, best_uv := 4\<rparr>,
      example_worker\<lparr>best_gain := 1, best_uv := 5\<rparr>]"


section \<open>The feature evaluator computes the depth difference\<close>


lemma trunc_toward_zero_bounds:
  "\<bar>real_of_int (trunc_toward_zero r)\<bar> \<le> \<bar>r\<bar> \<and> \<bar>r\<bar> < \<bar>real_of_int (trunc_toward_zero r)\<bar> + 1"
  unfolding trunc_toward_zero_def by (auto; linarith)

lemma sint_word_of_int_32:
  "- (2 ^ 31) \<le> z \<Longrightarrow> z < 2 ^ 31 \<Longrightarrow> sint (word_of_int z :: 32 word) = z"
  by (simp add: sint_sbintrunc' signed_take_bit_int_eq_self)

lemma unat_word_of_int_32:
  "0 \<le> z \<Longrightarrow> z < 2 ^ 32 \<Longrightarrow> unat (word_of_int z :: 32 word) = nat z"
  by (simp add: unat_eq_nat_uint uint_word_of_int)



lemma sint_of_nat_32: "W < 2 ^ 31 \<Longrightarrow> sint (of_nat W :: 32 word) = int W"
  using sint_word_of_int_32[of "int W"] by simp


lemma image_index:
  assumes "0 \<le> zx" "zx < int W" "0 \<le> zy" "zy < int H" "W * H \<le> 2 ^ 32"
  shows "unat ((word_of_int zy :: 32 word) * of_nat W + word_of_int zx) = nat (zy * int W + zx)"
proof -
  have "zy * int W + zx < int H * int W"
  proof -
    have "zy + 1 \<le> int H" using assms by simp
    then have "(zy + 1) * int W \<le> int H * int W"
      by (rule mult_right_mono) simp
    then show ?thesis using assms by (simp add: algebra_simps)
  qed
  also have "\<dots> \<le> 2 ^ 32"
    using assms(5) by (metis mult.commute of_nat_mult of_nat_le_iff of_nat_numeral of_nat_power)
  finally have lt: "zy * int W + zx < 2 ^ 32" .
  have ge: "0 \<le> zy * int W + zx" using assms by simp
  have "(word_of_int zy :: 32 word) * of_nat W + word_of_int zx = word_of_int (zy * int W + zx)"
    by simp
  then show ?thesis using unat_word_of_int_32[OF ge lt] by simp
qed





lemma sample_uv_reads_inside:
  assumes "in_image u (of_nat W) (of_nat H)" "W < 2 ^ 31" "H < 2 ^ 31" "W * H \<le> 2 ^ 32"
  shows "unat (snd u * of_nat W + fst u) < W * H"
proof -
  have b: "0 \<le> sint (fst u)" "sint (fst u) < int W" "0 \<le> sint (snd u)" "sint (snd u) < int H"
    using assms(1-3) by (simp_all add: in_image_def sint_of_nat_32)
  have "sint (snd u) + 1 \<le> int H" using b by simp
  then have "(sint (snd u) + 1) * int W \<le> int H * int W"
    by (rule mult_right_mono) simp
  then have "sint (snd u) * int W + sint (fst u) < int (W * H)"
    using b by (simp add: algebra_simps)
  moreover have "unat (snd u * of_nat W + fst u) = nat (sint (snd u) * int W + sint (fst u))"
    using image_index[OF b assms(4)] by simp
  moreover have "0 \<le> sint (snd u) * int W + sint (fst u)"
    using b by simp
  ultimately show ?thesis by (simp only: nat_less_iff)
qed

section \<open>Sums over slices of a histogram\<close>

lemma length_incr [simp]: "length (incr h k) = length h"
  by (simp add: incr_def)

lemma sum_list_update_word:
  fixes h :: "u32 list"
  shows "k < length h \<Longrightarrow> sum_list (h[k := v]) = sum_list h - h ! k + v"
proof (induction h arbitrary: k)
  case Nil
  then show ?case by simp
next
  case (Cons a h)
  then show ?case by (cases k) simp_all
qed

lemma sum_list_incr: "k < length h \<Longrightarrow> sum_list (incr h k) = sum_list h + 1"
  by (simp add: incr_def sum_list_update_word)

lemma slice_sum_incr:
  assumes "k < length h"
  shows "slice_sum (incr h k) b n = slice_sum h b n + (if b \<le> k \<and> k < b + n then 1 else 0)"
proof (cases "b \<le> k \<and> k < b + n")
  case True
  then have idx: "k - b < length (take n (drop b h))"
    using assms by (simp; linarith)
  have kb: "k - b < n" "b + (k - b) = k" "b \<le> length h"
    using True assms by linarith+
  have val: "take n (drop b h) ! (k - b) = h ! k"
    using kb by (simp add: nth_drop)
  have "take n (drop b (incr h k)) = incr (take n (drop b h)) (k - b)"
    using True by (simp add: incr_def drop_update_swap take_update_swap val)
  then show ?thesis
    using True idx by (simp add: slice_sum_def sum_list_incr)
next
  case False
  then consider "k < b" | "b + n \<le> k" by linarith
  then have "take n (drop b (incr h k)) = take n (drop b h)"
  proof cases
    case 1
    then show ?thesis by (simp add: incr_def drop_update_cancel)
  next
    case 2
    then have "b \<le> k" "n \<le> k - b" by linarith+
    then show ?thesis by (simp add: incr_def drop_update_swap take_update_cancel)
  qed
  then show ?thesis
    using False by (simp add: slice_sum_def)
qed

lemma fold_upt_Suc: "fold f [0..<Suc n] s = f n (fold f [0..<n] s)"
  by simp

lemma histogram_sums_fst:
  assumes "unat nl \<le> length h"
  shows "fst (histogram_sums h nl) = sum_list (take (unat nl) h)"
proof -
  have "n \<le> length h \<Longrightarrow>
      fst (fold (\<lambda>k (s0, s1). if 0 < h ! k then (s0 + h ! k, s1 + 1) else (s0, s1)) [0..<n] (0, 0))
      = sum_list (take n h)" for n
  proof (induction n)
    case 0
    then show ?case by simp
  next
    case (Suc n)
    then show ?case
      by (auto simp: take_Suc_conv_app_nth split: prod.splits simp: word_neq_0_conv[symmetric])
  qed
  from this[OF assms] show ?thesis by (simp add: histogram_sums_def)
qed

section \<open>The loop over the candidate pairs for one pixel\<close>

text \<open>the fold of lr_step over a list of pairs\<close>

lemma lr_step_snd: "snd (lr_step ctx label samples ct (lr, idx)) = idx + unat (n_labels ctx) * 2"
  by (simp add: lr_step_def split: prod.splits)

lemma lr_step_length: "length (fst (lr_step ctx label samples ct (lr, idx))) = length lr"
  by (simp add: lr_step_def split: prod.splits)

lemma lr_step_eq:
  "lr_step ctx label samples ct (lr, idx) =
     (incr lr (idx + (if decide ctx samples ct then 0 else unat (n_labels ctx)) + unat label),
      idx + unat (n_labels ctx) * 2)"
  by (simp add: lr_step_def decide_def split: prod.splits)

lemma lr_fold:
  assumes "unat label < n" "n = unat (n_labels ctx)"
    and "idx + 2 * n * length cts \<le> length lr"
  shows "lr_fold_spec ctx samples n cts lr idx (fold (lr_step ctx label samples) cts (lr, idx))"
  using assms(3)
proof (induction cts arbitrary: lr idx)
  case Nil
  show ?case by (simp add: lr_fold_spec_def)
next
  case (Cons ct cts)
  define pos where "pos = idx + (if decide ctx samples ct then 0 else n) + unat label"
  define lr1 where "lr1 = incr lr pos"
  define r where "r = fold (lr_step ctx label samples) cts (lr1, idx + 2 * n)"
  have step: "lr_step ctx label samples ct (lr, idx) = (lr1, idx + 2 * n)"
    by (simp add: lr_step_eq lr1_def pos_def assms(2))
  have fold_eq: "fold (lr_step ctx label samples) (ct # cts) (lr, idx) = r"
    by (simp add: step r_def)
  have len1: "length lr1 = length lr" by (simp add: lr1_def)
  have sz: "idx + 2 * n + 2 * n * length cts \<le> length lr1"
    using Cons.prems by (simp add: len1 algebra_simps)
  have posl: "pos < length lr" using Cons.prems assms(1) by (auto simp: pos_def)
  have sl1: "slice_sum lr1 b m = slice_sum lr b m + (if b \<le> pos \<and> pos < b + m then 1 else 0)" for b m
    unfolding lr1_def by (rule slice_sum_incr[OF posl])
  from Cons.IH[OF sz] have IH: "lr_fold_spec ctx samples n cts lr1 (idx + 2 * n) r"
    by (simp add: r_def)
  have c1: "snd r = idx + 2 * n * length (ct # cts)"
    using IH by (simp add: lr_fold_spec_def algebra_simps)
  have c2: "length (fst r) = length lr"
    using IH by (simp add: lr_fold_spec_def len1)
  have below: "b + m \<le> idx + 2 * n \<Longrightarrow> slice_sum (fst r) b m = slice_sum lr1 b m" for b m
    using IH by (simp add: lr_fold_spec_def)
  have c3: "slice_sum (fst r) b m = slice_sum lr b m" if "b + m \<le> idx" for b m
  proof -
    have "slice_sum (fst r) b m = slice_sum lr1 b m" using that by (intro below) simp
    also have "\<dots> = slice_sum lr b m" using that by (simp add: sl1 pos_def)
    finally show ?thesis .
  qed
  have c4: "slice_sum (fst r) (idx + 2 * n * k) n =
      slice_sum lr (idx + 2 * n * k) n + (if decide ctx samples ((ct # cts) ! k) then 1 else 0)"
    if "k < length (ct # cts)" for k
  proof (cases k)
    case 0
    have "slice_sum (fst r) idx n = slice_sum lr1 idx n" by (intro below) simp
    also have "\<dots> = slice_sum lr idx n + (if decide ctx samples ct then 1 else 0)"
      using assms(1) by (simp add: sl1 pos_def)
    finally show ?thesis using 0 by simp
  next
    case (Suc k')
    then have k': "k' < length cts" using that by simp
    have "slice_sum (fst r) (idx + 2 * n + 2 * n * k') n =
          slice_sum lr1 (idx + 2 * n + 2 * n * k') n +
            (if decide ctx samples (cts ! k') then 1 else 0)"
      using IH k' by (simp add: lr_fold_spec_def)
    also have "slice_sum lr1 (idx + 2 * n + 2 * n * k') n = slice_sum lr (idx + 2 * n + 2 * n * k') n"
      using assms(1) by (simp add: sl1 pos_def)
    finally show ?thesis using Suc by (simp add: algebra_simps)
  qed
  have c5: "slice_sum (fst r) (idx + 2 * n * k + n) n =
      slice_sum lr (idx + 2 * n * k + n) n + (if decide ctx samples ((ct # cts) ! k) then 0 else 1)"
    if "k < length (ct # cts)" for k
  proof (cases k)
    case 0
    have "slice_sum (fst r) (idx + n) n = slice_sum lr1 (idx + n) n" by (intro below) simp
    also have "\<dots> = slice_sum lr (idx + n) n + (if decide ctx samples ct then 0 else 1)"
      using assms(1) by (simp add: sl1 pos_def)
    finally show ?thesis using 0 by simp
  next
    case (Suc k')
    then have k': "k' < length cts" using that by simp
    have "slice_sum (fst r) (idx + 2 * n + 2 * n * k' + n) n =
          slice_sum lr1 (idx + 2 * n + 2 * n * k' + n) n +
            (if decide ctx samples (cts ! k') then 0 else 1)"
      using IH k' by (simp add: lr_fold_spec_def)
    also have "slice_sum lr1 (idx + 2 * n + 2 * n * k' + n) n =
               slice_sum lr (idx + 2 * n + 2 * n * k' + n) n"
      using assms(1) by (simp add: sl1 pos_def)
    finally show ?thesis using Suc by (simp add: algebra_simps)
  qed
  show ?case
    unfolding fold_eq lr_fold_spec_def using c1 c2 c3 c4 c5 by blast
qed

section \<open>The body of the pixel loop\<close>

lemma n_left_right: "n_left ctx ps c k + n_right ctx ps c k = length ps"
  by (simp add: n_left_def n_right_def sum_length_filter_compl)

lemma product_upt_nth:
  assumes "a < S" "b < T"
  shows "List.product [0..<S] [0..<T] ! (a * T + b) = (a, b)"
proof -
  have "a * T + b < S * T"
  proof -
    have "a * T + b < a * T + T" using assms by simp
    also have "\<dots> = (a + 1) * T" by simp
    also have "\<dots> \<le> S * T" using assms by (intro mult_le_mono1) simp
    finally show ?thesis .
  qed
  then show ?thesis using assms by (simp add: product_nth)
qed

lemma product_upt_bound:
  assumes "a < S" "b < (T::nat)"
  shows "a * T + b < S * T"
proof -
  have "a * T + b < a * T + T" using assms by simp
  also have "\<dots> = (a + 1) * T" by simp
  also have "\<dots> \<le> S * T" using assms by (intro mult_le_mono1) simp
  finally show ?thesis .
qed

lemma accumulate_pixel_final:
  assumes "label_of ctx p < n_labels ctx" "final_depth ctx data"
  shows "accumulate_pixel ctx data cs ce p (rh, lr) = Inr (incr rh (unat (label_of ctx p)), lr)"
  using assms by (simp add: accumulate_pixel_def final_depth_def Let_def not_le)

lemma accumulate_pixel_search:
  assumes lab: "label_of ctx p < n_labels ctx" and nf: "\<not> final_depth ctx data"
    and len: "length lr = lr_size ctx cs ce"
  shows "\<exists>lr'. accumulate_pixel ctx data cs ce p (rh, lr) =
            Inr (incr rh (unat (label_of ctx p)), lr') \<and> length lr' = length lr \<and>
          (\<forall>c k. cs \<le> c \<and> c < ce \<and> k < unat (n_t ctx) \<longrightarrow>
             slice_sum lr' (blk ctx cs c k) (unat (n_labels ctx)) =
               slice_sum lr (blk ctx cs c k) (unat (n_labels ctx)) +
               (if goes_left ctx p c k then 1 else 0) \<and>
             slice_sum lr' (blk ctx cs c k + unat (n_labels ctx)) (unat (n_labels ctx)) =
               slice_sum lr (blk ctx cs c k + unat (n_labels ctx)) (unat (n_labels ctx)) +
               (if goes_left ctx p c k then 0 else 1))"
proof -
  define n where "n = unat (n_labels ctx)"
  define T where "T = unat (n_t ctx)"
  define samples where "samples = map (\<lambda>c. pixel_feature ctx p (uvs ctx ! c)) [cs..<ce]"
  define cts where "cts = List.product [0..<ce - cs] [0..<T]"
  define r where "r = fold (lr_step ctx (label_of ctx p) samples) cts (lr, 0)"
  have ln: "unat (label_of ctx p) < n"
    using lab by (simp add: n_def word_less_nat_alt)
  have lcts: "length cts = (ce - cs) * T" by (simp add: cts_def)
  have sz: "0 + 2 * n * length cts \<le> length lr"
    by (simp add: len lr_size_def lcts n_def T_def algebra_simps)
  from lr_fold[OF ln n_def sz, of samples]
  have spec: "lr_fold_spec ctx samples n cts lr 0 r" by (simp add: r_def)
  have eq: "accumulate_pixel ctx data cs ce p (rh, lr) =
      Inr (incr rh (unat (label_of ctx p)), fst r)"
    using lab nf
    by (simp add: accumulate_pixel_def final_depth_def Let_def not_le r_def samples_def cts_def T_def)
  have sl: "slice_sum (fst r) (blk ctx cs c k) n =
              slice_sum lr (blk ctx cs c k) n + (if goes_left ctx p c k then 1 else 0) \<and>
            slice_sum (fst r) (blk ctx cs c k + n) n =
              slice_sum lr (blk ctx cs c k + n) n + (if goes_left ctx p c k then 0 else 1)"
    if "cs \<le> c" "c < ce" "k < T" for c k
  proof -
    define j where "j = (c - cs) * T + k"
    have a: "c - cs < ce - cs" using that by simp
    have jl: "j < length cts" unfolding j_def lcts by (rule product_upt_bound[OF a that(3)])
    have nth: "cts ! j = (c - cs, k)" unfolding j_def cts_def by (rule product_upt_nth[OF a that(3)])
    have "[cs..<ce] ! (c - cs) = c"
      using that a by (simp add: nth_upt)
    then have "samples ! (c - cs) = pixel_feature ctx p (uvs ctx ! c)"
      using a by (simp add: samples_def)
    then have dec: "decide ctx samples (cts ! j) = goes_left ctx p c k"
      by (simp add: nth decide_def goes_left_def)
    have b: "blk ctx cs c k = 0 + 2 * n * j"
      by (simp add: blk_def j_def n_def T_def algebra_simps)
    show ?thesis
      using spec jl dec unfolding b lr_fold_spec_def by simp
  qed
  show ?thesis
    using eq spec sl unfolding n_def[symmetric] T_def[symmetric]
    by (intro exI[of _ "fst r"]) (simp add: lr_fold_spec_def)
qed

section \<open>The pixel loop\<close>

lemma length_root_after [simp]: "length (root_after ctx ps rh) = length rh"
  unfolding root_after_def by (induction ps arbitrary: rh) simp_all

lemma root_after_Cons:
  "root_after ctx (p # ps) rh = root_after ctx ps (incr rh (unat (label_of ctx p)))"
  by (simp add: root_after_def)

lemma nth_incr: "k < length h \<Longrightarrow> incr h j ! k = h ! k + (if j = k then 1 else 0)"
  by (simp add: incr_def)

lemma root_after_nth:
  "k < length rh \<Longrightarrow> root_after ctx ps rh ! k = rh ! k + of_nat (n_label ctx ps k)"
proof (induction ps arbitrary: rh)
  case Nil
  then show ?case by (simp add: root_after_def n_label_def)
next
  case (Cons p ps)
  have "root_after ctx (p # ps) rh ! k =
        incr rh (unat (label_of ctx p)) ! k + of_nat (n_label ctx ps k)"
    unfolding root_after_Cons using Cons.prems by (intro Cons.IH) simp
  then show ?case using Cons.prems by (simp add: nth_incr n_label_def)
qed

lemma root_after_sum:
  "labels_ok ctx ps \<Longrightarrow> length rh = unat (n_labels ctx) \<Longrightarrow>
   sum_list (root_after ctx ps rh) = sum_list rh + of_nat (length ps)"
proof (induction ps arbitrary: rh)
  case Nil
  then show ?case by (simp add: root_after_def)
next
  case (Cons p ps)
  have lp: "unat (label_of ctx p) < length rh"
    using Cons.prems by (simp add: labels_ok_def word_less_nat_alt)
  have "sum_list (root_after ctx (p # ps) rh) =
        sum_list (incr rh (unat (label_of ctx p))) + of_nat (length ps)"
    unfolding root_after_Cons using Cons.prems by (intro Cons.IH) (simp_all add: labels_ok_def)
  then show ?case by (simp add: sum_list_incr[OF lp])
qed

lemma accumulate_loop_final:
  assumes "labels_ok ctx ps" "final_depth ctx data"
  shows "accumulate_loop ctx data cs ce ps (rh, lr) = Inr (root_after ctx ps rh, lr)"
  using assms(1)
proof (induction ps arbitrary: rh)
  case Nil
  then show ?case by (simp add: root_after_def)
next
  case (Cons p ps)
  then have "label_of ctx p < n_labels ctx" "labels_ok ctx ps"
    by (simp_all add: labels_ok_def)
  then show ?case
    using Cons.IH by (simp add: accumulate_pixel_final[OF _ assms(2)] root_after_Cons)
qed

lemma accumulate_loop_search:
  assumes "labels_ok ctx ps" "\<not> final_depth ctx data" "length lr = lr_size ctx cs ce"
  shows "\<exists>lr'. accumulate_loop ctx data cs ce ps (rh, lr) = Inr (root_after ctx ps rh, lr') \<and>
           acc_spec ctx cs ce ps lr lr'"
  using assms(1,3)
proof (induction ps arbitrary: rh lr)
  case Nil
  then show ?case by (simp add: root_after_def acc_spec_def n_left_def n_right_def)
next
  case (Cons p ps)
  then have lab: "label_of ctx p < n_labels ctx" and rest: "labels_ok ctx ps"
    by (simp_all add: labels_ok_def)
  from accumulate_pixel_search[OF lab assms(2) Cons.prems(2), of rh]
  obtain lr1 where step: "accumulate_pixel ctx data cs ce p (rh, lr) =
        Inr (incr rh (unat (label_of ctx p)), lr1)"
    and len1: "length lr1 = length lr"
    and sl1: "\<And>c k. cs \<le> c \<Longrightarrow> c < ce \<Longrightarrow> k < unat (n_t ctx) \<Longrightarrow>
          slice_sum lr1 (blk ctx cs c k) (unat (n_labels ctx)) =
            slice_sum lr (blk ctx cs c k) (unat (n_labels ctx)) +
            (if goes_left ctx p c k then 1 else 0) \<and>
          slice_sum lr1 (blk ctx cs c k + unat (n_labels ctx)) (unat (n_labels ctx)) =
            slice_sum lr (blk ctx cs c k + unat (n_labels ctx)) (unat (n_labels ctx)) +
            (if goes_left ctx p c k then 0 else 1)"
    by blast
  have len1': "length lr1 = lr_size ctx cs ce" using len1 Cons.prems(2) by simp
  from Cons.IH[OF rest len1', of "incr rh (unat (label_of ctx p))"]
  obtain lr' where run: "accumulate_loop ctx data cs ce ps (incr rh (unat (label_of ctx p)), lr1) =
        Inr (root_after ctx ps (incr rh (unat (label_of ctx p))), lr')"
    and spec: "acc_spec ctx cs ce ps lr1 lr'"
    by blast
  have "acc_spec ctx cs ce (p # ps) lr lr'"
    unfolding acc_spec_def
  proof (intro conjI allI impI)
    show "length lr' = length lr" using spec len1 by (simp add: acc_spec_def)
  next
    fix c k assume ck: "cs \<le> c \<and> c < ce \<and> k < unat (n_t ctx)"
    then show "slice_sum lr' (blk ctx cs c k) (unat (n_labels ctx)) =
        slice_sum lr (blk ctx cs c k) (unat (n_labels ctx)) + of_nat (n_left ctx (p # ps) c k)"
      using spec sl1[of c k] by (simp add: acc_spec_def n_left_def)
  next
    fix c k assume ck: "cs \<le> c \<and> c < ce \<and> k < unat (n_t ctx)"
    then show "slice_sum lr' (blk ctx cs c k + unat (n_labels ctx)) (unat (n_labels ctx)) =
        slice_sum lr (blk ctx cs c k + unat (n_labels ctx)) (unat (n_labels ctx)) +
        of_nat (n_right ctx (p # ps) c k)"
      using spec sl1[of c k] by (simp add: acc_spec_def n_right_def)
  qed
  then show ?case
    using step run by (simp add: root_after_Cons)
qed

lemma accumulate_loop_invalid:
  assumes "\<not> labels_ok ctx ps"
  shows "\<exists>a b. accumulate_loop ctx data cs ce ps hs = Inl (InvalidLabel a b)"
  using assms
proof (induction ps arbitrary: hs)
  case Nil
  then show ?case by (simp add: labels_ok_def)
next
  case (Cons p ps)
  show ?case
  proof (cases "label_of ctx p < n_labels ctx")
    case True
    then have "\<not> labels_ok ctx ps" using Cons.prems by (simp add: labels_ok_def)
    moreover from True have "\<exists>hs'. accumulate_pixel ctx data cs ce p hs = Inr hs'"
      by (cases hs) (auto simp: accumulate_pixel_def Let_def not_le)
    then obtain hs' where "accumulate_pixel ctx data cs ce p hs = Inr hs'" ..
    ultimately show ?thesis using Cons.IH[of hs'] by simp
  next
    case False
    then show ?thesis
      by (cases hs) (simp add: accumulate_pixel_def Let_def not_less)
  qed
qed

section \<open>Normalisation\<close>

lemma slice_sum_replicate [simp]: "slice_sum (replicate m 0) b n = 0"
  by (simp add: slice_sum_def sum_list_replicate)

lemma fold_update_upt:
  "m \<le> length buf \<Longrightarrow> fold (\<lambda>k nh. nh[k := f k]) [0..<m] buf = map f [0..<m] @ drop m buf"
proof (induction m)
  case 0
  then show ?case by simp
next
  case (Suc m)
  then have "fold (\<lambda>k nh. nh[k := f k]) [0..<Suc m] buf = (map f [0..<m] @ drop m buf)[m := f m]"
    by simp
  also have "\<dots> = map f [0..<m] @ (drop m buf)[0 := f m]"
    by (simp add: list_update_append)
  also have "(drop m buf)[0 := f m] = f m # drop (Suc m) buf"
    using Suc.prems Cons_nth_drop_Suc[of m buf, symmetric] by simp
  finally show ?case by simp
qed

lemma normalize_histogram_fst [simp]:
  "fst (normalize_histogram h nl buf) = histogram_sums h nl"
  by (simp add: normalize_histogram_def Let_def)

lemma normalize_histogram_snd:
  assumes "unat nl \<le> length buf"
  shows "snd (normalize_histogram h nl buf) = normalized_of h nl @ drop (unat nl) buf"
  using assms
  by (simp add: normalize_histogram_def normalized_of_def Let_def fold_update_upt map_replicate_const)

lemma length_normalize_histogram [simp]:
  "length (snd (normalize_histogram h nl buf)) = length buf"
proof -
  have "length (fold (\<lambda>k nh. nh[k := f k]) ks buf) = length buf" for f :: "nat \<Rightarrow> real" and ks
    by (induction ks arbitrary: buf) simp_all
  then show ?thesis by (simp add: normalize_histogram_def Let_def)
qed

lemma histogram_sums_snd:
  "snd (histogram_sums h nl) = of_nat (length (filter (\<lambda>k. h ! k \<noteq> 0) [0..<unat nl]))"
proof -
  have "snd (fold (\<lambda>k (s0, s1). if 0 < h ! k then (s0 + h ! k, s1 + 1) else (s0, s1)) [0..<n] (0, 0))
      = (of_nat (length (filter (\<lambda>k. h ! k \<noteq> 0) [0..<n])) :: u32)" for n
  proof (induction n)
    case 0
    then show ?case by simp
  next
    case (Suc n)
    then show ?case
      by (auto split: prod.splits simp: word_neq_0_conv[symmetric])
  qed
  then show ?thesis by (simp add: histogram_sums_def)
qed

lemma sint_of_nat_small: "m < 2 ^ 31 \<Longrightarrow> sint (of_nat m :: u32) = int m"
  using sint_of_nat_32 .

lemma unat_of_nat_u32: "m < 2 ^ 32 \<Longrightarrow> unat (of_nat m :: u32) = m"
  by (simp add: unat_of_nat)

lemma of_nat_u32_eq_iff:
  "a < 2 ^ 32 \<Longrightarrow> b < 2 ^ 32 \<Longrightarrow> (of_nat a :: u32) = of_nat b \<longleftrightarrow> a = b"
  by (metis unat_of_nat_u32)

lemma of_nat_u32_eq_0_iff: "a < 2 ^ 32 \<Longrightarrow> (of_nat a :: u32) = 0 \<longleftrightarrow> a = 0"
  using of_nat_u32_eq_iff[of a 0] by simp

section \<open>The histograms of a node\<close>

lemma root_after_zero:
  "root_after ctx (node_pixels data) (replicate (unat (n_labels ctx)) 0) = node_histogram ctx data"
  by (rule nth_equalityI) (simp_all add: node_histogram_def root_after_nth)

lemma length_node_pixels: "length (node_pixels data) < 2 ^ 32"
proof -
  have "length (node_pixels data) \<le> unat (node_n_pixels data)"
    by (simp add: node_pixels_def)
  also have "\<dots> < 2 ^ 32" using unsigned_less[of "node_n_pixels data"] by simp
  finally show ?thesis .
qed

lemma length_node_pixels_ok: "node_ok data \<Longrightarrow> length (node_pixels data) = unat (node_n_pixels data)"
  by (simp add: node_ok_def node_pixels_def)

lemma n_label_le: "n_label ctx ps k \<le> length ps"
  by (simp add: n_label_def)

lemma n_left_le: "n_left ctx ps c k \<le> length ps"
  by (simp add: n_left_def)

lemma n_right_le: "n_right ctx ps c k \<le> length ps"
  by (simp add: n_right_def)

lemma length_node_histogram [simp]: "length (node_histogram ctx data) = unat (n_labels ctx)"
  by (simp add: node_histogram_def)

lemma node_histogram_nth:
  "k < unat (n_labels ctx) \<Longrightarrow>
   node_histogram ctx data ! k = of_nat (n_label ctx (node_pixels data) k)"
  by (simp add: node_histogram_def)

lemma node_histogram_sums_fst:
  assumes "labels_ok ctx (node_pixels data)"
  shows "fst (histogram_sums (node_histogram ctx data) (n_labels ctx)) =
         of_nat (length (node_pixels data))"
proof -
  have "fst (histogram_sums (node_histogram ctx data) (n_labels ctx)) =
        sum_list (take (unat (n_labels ctx)) (node_histogram ctx data))"
    by (rule histogram_sums_fst) simp
  also have "\<dots> = sum_list (node_histogram ctx data)" by simp
  also have "\<dots> = of_nat (length (node_pixels data))"
    unfolding root_after_zero[symmetric]
    using root_after_sum[OF assms, of "replicate (unat (n_labels ctx)) 0"]
    by (simp add: sum_list_replicate)
  finally show ?thesis .
qed

lemma node_histogram_sums_snd:
  "snd (histogram_sums (node_histogram ctx data) (n_labels ctx)) = of_nat (k_root ctx data)"
proof -
  have "filter (\<lambda>k. node_histogram ctx data ! k \<noteq> 0) [0..<unat (n_labels ctx)] =
        filter (\<lambda>k. 0 < n_label ctx (node_pixels data) k) [0..<unat (n_labels ctx)]"
  proof (rule filter_cong[OF refl])
    fix k assume "k \<in> set [0..<unat (n_labels ctx)]"
    then have k: "k < unat (n_labels ctx)" by simp
    have "n_label ctx (node_pixels data) k < 2 ^ 32"
      using n_label_le[of ctx "node_pixels data" k] length_node_pixels[of data] by simp
    then show "(node_histogram ctx data ! k \<noteq> 0) = (0 < n_label ctx (node_pixels data) k)"
      by (simp add: node_histogram_nth[OF k] of_nat_u32_eq_0_iff)
  qed
  then show ?thesis by (simp add: histogram_sums_snd k_root_def)
qed

lemma k_root_le: "k_root ctx data \<le> unat (n_labels ctx)"
  unfolding k_root_def using length_filter_le[of _ "[0..<unat (n_labels ctx)]"] by simp

lemma sint_k_root: "sint (of_nat (k_root ctx data) :: u32) = int (k_root ctx data)"
proof -
  have "unat (n_labels ctx) < 2 ^ 8" using unsigned_less[of "n_labels ctx"] by simp
  then have "k_root ctx data < 2 ^ 31" using k_root_le[of ctx data] by simp
  then show ?thesis by (rule sint_of_nat_32)
qed

lemma accumulate_from_zero:
  assumes "labels_ok ctx (node_pixels data)"
  shows "\<exists>lr'. accumulate_histograms ctx data cs ce (replicate (unat (n_labels ctx)) 0)
                  (replicate (lr_size ctx cs ce) 0) = Inr (node_histogram ctx data, lr') \<and>
           (if final_depth ctx data then lr' = replicate (lr_size ctx cs ce) 0
            else acc_spec ctx cs ce (node_pixels data) (replicate (lr_size ctx cs ce) 0) lr')"
proof (cases "final_depth ctx data")
  case True
  then show ?thesis
    by (simp add: accumulate_histograms_def accumulate_loop_final[OF assms True] root_after_zero)
next
  case False
  from accumulate_loop_search[OF assms False, of "replicate (lr_size ctx cs ce) 0" cs ce
      "replicate (unat (n_labels ctx)) 0"]
  show ?thesis using False by (simp add: accumulate_histograms_def root_after_zero)
qed

lemma blk_bound:
  assumes "cs \<le> c" "c < ce" "k < unat (n_t ctx)"
  shows "blk ctx cs c k + unat (n_labels ctx) * 2 \<le> lr_size ctx cs ce"
proof -
  have "(c - cs) * unat (n_t ctx) + k < (ce - cs) * unat (n_t ctx)"
    using assms by (intro product_upt_bound) simp_all
  then have "(c - cs) * unat (n_t ctx) + k + 1 \<le> (ce - cs) * unat (n_t ctx)" by simp
  then have "((c - cs) * unat (n_t ctx) + k + 1) * (unat (n_labels ctx) * 2) \<le>
             ((ce - cs) * unat (n_t ctx)) * (unat (n_labels ctx) * 2)"
    by (rule mult_le_mono1)
  then show ?thesis by (simp add: blk_def lr_size_def algebra_simps)
qed

lemma slice_counts:
  assumes spec: "acc_spec ctx cs ce ps (replicate (lr_size ctx cs ce) 0) lr"
    and ck: "cs \<le> c" "c < ce" "k < unat (n_t ctx)"
  shows "fst (histogram_sums (drop (blk ctx cs c k) lr) (n_labels ctx)) = of_nat (n_left ctx ps c k)"
    and "fst (histogram_sums (drop (blk ctx cs c k + unat (n_labels ctx)) lr) (n_labels ctx)) =
         of_nat (n_right ctx ps c k)"
proof -
  have len: "length lr = lr_size ctx cs ce" using spec by (simp add: acc_spec_def)
  have b: "blk ctx cs c k + unat (n_labels ctx) * 2 \<le> length lr"
    using blk_bound[OF ck] len by simp
  have "fst (histogram_sums (drop (blk ctx cs c k) lr) (n_labels ctx)) =
        slice_sum lr (blk ctx cs c k) (unat (n_labels ctx))"
    unfolding slice_sum_def using b by (intro histogram_sums_fst) simp
  then show "fst (histogram_sums (drop (blk ctx cs c k) lr) (n_labels ctx)) =
      of_nat (n_left ctx ps c k)"
    using spec ck by (simp add: acc_spec_def)
  have "fst (histogram_sums (drop (blk ctx cs c k + unat (n_labels ctx)) lr) (n_labels ctx)) =
        slice_sum lr (blk ctx cs c k + unat (n_labels ctx)) (unat (n_labels ctx))"
    unfolding slice_sum_def using b by (intro histogram_sums_fst) simp
  then show "fst (histogram_sums (drop (blk ctx cs c k + unat (n_labels ctx)) lr) (n_labels ctx)) =
      of_nat (n_right ctx ps c k)"
    using spec ck by (simp add: acc_spec_def)
qed

section \<open>The candidate loop\<close>

lemma trivial_split_iff:
  "trivial_split ctx ps c k \<longleftrightarrow> n_left ctx ps c k = 0 \<or> n_left ctx ps c k = length ps"
  using n_left_right[of ctx ps c k] by (auto simp: trivial_split_def)

lemma candidate_snd:
  "snd (candidate ctx lr e rn ij (td, b)) = b + unat (n_labels ctx) * 2"
  by (simp add: candidate_def Let_def split: prod.splits)

lemma candidate_fields:
  "root_nhistogram (fst (candidate ctx lr e rn ij (td, b))) = root_nhistogram td"
  "c_start (fst (candidate ctx lr e rn ij (td, b))) = c_start td"
  "c_end (fst (candidate ctx lr e rn ij (td, b))) = c_end td"
  by (simp_all add: candidate_def Let_def split: prod.splits)

lemma candidate_skip:
  assumes "fst (histogram_sums (drop b lr) (n_labels ctx)) = 0 \<or>
           fst (histogram_sums (drop b lr) (n_labels ctx)) = fst rn"
  shows "candidate ctx lr e rn ij (td, b) =
     (td\<lparr>nhistogram := snd (normalize_histogram (drop b lr) (n_labels ctx) (nhistogram td))\<rparr>,
      b + unat (n_labels ctx) * 2)"
proof -
  obtain s nh where nh: "normalize_histogram (drop b lr) (n_labels ctx) (nhistogram td) = (s, nh)"
    by (cases "normalize_histogram (drop b lr) (n_labels ctx) (nhistogram td)")
  then have "s = histogram_sums (drop b lr) (n_labels ctx)"
    using normalize_histogram_fst[of "drop b lr" "n_labels ctx" "nhistogram td"] by simp
  then show ?thesis using assms nh
    by (cases ij) (simp add: candidate_def Let_def)
qed

lemma candidate_publish:
  assumes "\<not> (fst (histogram_sums (drop b lr) (n_labels ctx)) = 0 \<or>
              fst (histogram_sums (drop b lr) (n_labels ctx)) = fst rn)"
  shows "published (fst (candidate ctx lr e rn (i, j) (td, b))) = published td \<or>
         (best_gain td < best_gain (fst (candidate ctx lr e rn (i, j) (td, b))) \<and>
          best_uv (fst (candidate ctx lr e rn (i, j) (td, b))) = i \<and>
          best_t (fst (candidate ctx lr e rn (i, j) (td, b))) = j \<and>
          n_lr_pixels (fst (candidate ctx lr e rn (i, j) (td, b))) =
            (fst (histogram_sums (drop b lr) (n_labels ctx)),
             fst (histogram_sums (drop (b + unat (n_labels ctx)) lr) (n_labels ctx))))"
proof -
  obtain s nh where nh: "normalize_histogram (drop b lr) (n_labels ctx) (nhistogram td) = (s, nh)"
    by (cases "normalize_histogram (drop b lr) (n_labels ctx) (nhistogram td)")
  then have s: "s = histogram_sums (drop b lr) (n_labels ctx)"
    using normalize_histogram_fst[of "drop b lr" "n_labels ctx" "nhistogram td"] by simp
  obtain s2 nh2 where nh2:
    "normalize_histogram (drop (b + unat (n_labels ctx)) lr) (n_labels ctx) nh = (s2, nh2)"
    by (cases "normalize_histogram (drop (b + unat (n_labels ctx)) lr) (n_labels ctx) nh")
  then have s2: "s2 = histogram_sums (drop (b + unat (n_labels ctx)) lr) (n_labels ctx)"
    using normalize_histogram_fst[of "drop (b + unat (n_labels ctx)) lr" "n_labels ctx" nh] by simp
  show ?thesis
    using assms nh nh2 s s2
    by (simp add: candidate_def Let_def published_def)
qed

lemma candidate_inv:
  assumes spec: "acc_spec ctx cs ce ps (replicate (lr_size ctx cs ce) 0) lr"
    and ck: "cs \<le> c" "c < ce" "k < unat (n_t ctx)"
    and len: "length ps < 2 ^ 32"
    and rn: "fst rn = of_nat (length ps)"
    and inv: "search_inv ctx ps cs ce rnh old td"
  shows "search_inv ctx ps cs ce rnh old (fst (candidate ctx lr e rn (c, k) (td, blk ctx cs c k)))"
    and "trivial_split ctx ps c k \<Longrightarrow>
         published (fst (candidate ctx lr e rn (c, k) (td, blk ctx cs c k))) = published td"
proof -
  let ?b = "blk ctx cs c k"
  let ?td' = "fst (candidate ctx lr e rn (c, k) (td, ?b))"
  have l: "fst (histogram_sums (drop ?b lr) (n_labels ctx)) = of_nat (n_left ctx ps c k)"
    and r: "fst (histogram_sums (drop (?b + unat (n_labels ctx)) lr) (n_labels ctx)) =
            of_nat (n_right ctx ps c k)"
    using slice_counts[OF spec ck] by simp_all
  have Ll: "n_left ctx ps c k < 2 ^ 32"
    using n_left_le[of ctx ps c k] len by simp
  have triv: "(fst (histogram_sums (drop ?b lr) (n_labels ctx)) = 0 \<or>
               fst (histogram_sums (drop ?b lr) (n_labels ctx)) = fst rn) \<longleftrightarrow>
              trivial_split ctx ps c k"
    unfolding l rn trivial_split_iff
    using of_nat_u32_eq_0_iff[OF Ll] of_nat_u32_eq_iff[OF Ll len] by simp
  have fields: "root_nhistogram ?td' = rnh" "c_start ?td' = cs" "c_end ?td' = ce"
    using inv by (simp_all add: candidate_fields search_inv_def)
  show pub: "published ?td' = published td" if "trivial_split ctx ps c k"
    using that triv candidate_skip[of ?b lr ctx rn e "(c, k)" td]
    by (simp add: published_def)
  show "search_inv ctx ps cs ce rnh old ?td'"
  proof (cases "trivial_split ctx ps c k")
    case True
    from pub[OF True] inv fields show ?thesis
      by (simp add: search_inv_def published_def)
  next
    case False
    then have "\<not> (fst (histogram_sums (drop ?b lr) (n_labels ctx)) = 0 \<or>
               fst (histogram_sums (drop ?b lr) (n_labels ctx)) = fst rn)"
      using triv by simp
    from candidate_publish[OF this, of e c k td]
    consider "published ?td' = published td"
      | "best_gain td < best_gain ?td'" "best_uv ?td' = c" "best_t ?td' = k"
        "n_lr_pixels ?td' = (of_nat (n_left ctx ps c k), of_nat (n_right ctx ps c k))"
      unfolding l r by blast
    then show ?thesis
    proof cases
      case 1
      with inv fields show ?thesis by (simp add: search_inv_def published_def)
    next
      case 2
      with inv fields False ck show ?thesis by (simp add: search_inv_def)
    qed
  qed
qed

lemma fold_candidate_inv:
  assumes "I td"
    and "\<And>j td. j < length cts \<Longrightarrow> I td \<Longrightarrow>
           I (fst (candidate ctx lr e rn (cts ! j) (td, b + unat (n_labels ctx) * 2 * j)))"
  shows "I (fst (fold (candidate ctx lr e rn) cts (td, b)))"
  using assms
proof (induction cts arbitrary: td b)
  case Nil
  then show ?case by simp
next
  case (Cons ct cts)
  define td1 where "td1 = fst (candidate ctx lr e rn ct (td, b))"
  have step: "candidate ctx lr e rn ct (td, b) = (td1, b + unat (n_labels ctx) * 2)"
    using candidate_snd[of ctx lr e rn ct td b] by (simp add: td1_def prod_eq_iff)
  have I1: "I td1" using Cons.prems(2)[of 0 td] Cons.prems(1) by (simp add: td1_def)
  have "I (fst (fold (candidate ctx lr e rn) cts (td1, b + unat (n_labels ctx) * 2)))"
  proof (rule Cons.IH[OF I1])
    fix j td' assume "j < length cts" "I td'"
    then show "I (fst (candidate ctx lr e rn (cts ! j)
                 (td', b + unat (n_labels ctx) * 2 + unat (n_labels ctx) * 2 * j)))"
      using Cons.prems(2)[of "Suc j" td'] by (simp add: algebra_simps)
  qed
  then show ?case by (simp add: step)
qed

lemma product_stripe_nth:
  assumes "j < (ce - cs) * T"
  shows "List.product [cs..<ce] [0..<T] ! j = (cs + j div T, j mod T)"
    and "cs + j div T < ce" and "j mod T < T"
proof -
  have T: "0 < T" using assms by (cases T) simp_all
  have d: "j div T < ce - cs" using assms T by (simp add: less_mult_imp_div_less)
  show "List.product [cs..<ce] [0..<T] ! j = (cs + j div T, j mod T)"
    using assms d T by (simp add: product_nth)
  show "cs + j div T < ce" using d by simp
  show "j mod T < T" using T by simp
qed

section \<open>One round of a worker\<close>

lemma searches_not_final: "searches ctx data \<Longrightarrow> \<not> final_depth ctx data"
  by (simp add: searches_def final_depth_def not_le)

lemma thread_body_no_search:
  assumes "labels_ok ctx (node_pixels data)" "\<not> searches ctx data"
  shows "thread_body ctx data td =
     Inr (td\<lparr>root_nhistogram := root_normalized ctx data (root_nhistogram td), best_gain := 0\<rparr>)"
proof -
  from accumulate_from_zero[OF assms(1), where cs = "c_start td" and ce = "c_end td"]
  obtain lr' where acc: "accumulate_histograms ctx data (c_start td) (c_end td)
      (replicate (unat (n_labels ctx)) 0)
      (replicate (unat (n_labels ctx) * (c_end td - c_start td) * unat (n_t ctx) * 2) 0) =
      Inr (node_histogram ctx data, lr')"
    by (auto simp: lr_size_def)
  obtain s nh where nh:
    "normalize_histogram (node_histogram ctx data) (n_labels ctx) (root_nhistogram td) = (s, nh)"
    by (cases "normalize_histogram (node_histogram ctx data) (n_labels ctx) (root_nhistogram td)")
  have s: "s = histogram_sums (node_histogram ctx data) (n_labels ctx)"
    using nh normalize_histogram_fst[of "node_histogram ctx data" "n_labels ctx" "root_nhistogram td"]
    by simp
  have "sint (snd s) = int (k_root ctx data)"
    by (simp add: s node_histogram_sums_snd sint_k_root)
  then have "\<not> (1 < sint (snd s) \<and> node_depth data < ucast (max_depth ctx) - 1)"
    using assms(2) by (simp add: searches_def)
  then show ?thesis
    using nh by (auto simp: thread_body_def acc root_normalized_def Let_def)
qed

lemma thread_body_search:
  assumes lab: "labels_ok ctx (node_pixels data)" and se: "searches ctx data"
  shows "\<exists>td'. thread_body ctx data td = Inr td' \<and>
     search_inv ctx (node_pixels data) (c_start td) (c_end td)
       (root_normalized ctx data (root_nhistogram td)) (best_uv td, best_t td, n_lr_pixels td) td'"
proof -
  let ?cs = "c_start td" and ?ce = "c_end td" and ?ps = "node_pixels data"
  let ?n = "unat (n_labels ctx)" and ?T = "unat (n_t ctx)"
  let ?rnh = "root_normalized ctx data (root_nhistogram td)"
  let ?old = "(best_uv td, best_t td, n_lr_pixels td)"
  have nf: "\<not> final_depth ctx data" using se by (rule searches_not_final)
  from accumulate_from_zero[OF lab, where cs = ?cs and ce = ?ce] nf
  obtain lr where acc: "accumulate_histograms ctx data ?cs ?ce (replicate ?n 0)
      (replicate (?n * (?ce - ?cs) * ?T * 2) 0) = Inr (node_histogram ctx data, lr)"
    and spec: "acc_spec ctx ?cs ?ce ?ps (replicate (lr_size ctx ?cs ?ce) 0) lr"
    by (auto simp: lr_size_def)
  obtain s nh where nh:
    "normalize_histogram (node_histogram ctx data) (n_labels ctx) (root_nhistogram td) = (s, nh)"
    by (cases "normalize_histogram (node_histogram ctx data) (n_labels ctx) (root_nhistogram td)")
  have s: "s = histogram_sums (node_histogram ctx data) (n_labels ctx)"
    using nh normalize_histogram_fst[of "node_histogram ctx data" "n_labels ctx" "root_nhistogram td"]
    by simp
  have nh_eq: "nh = ?rnh" using nh by (simp add: root_normalized_def)
  have "sint (snd s) = int (k_root ctx data)"
    by (simp add: s node_histogram_sums_snd sint_k_root)
  then have cond: "1 < sint (snd s) \<and> node_depth data < ucast (max_depth ctx) - 1"
    using se by (simp add: searches_def)
  have rn: "fst s = of_nat (length ?ps)"
    by (simp add: s node_histogram_sums_fst[OF lab])
  define td0 where "td0 = td\<lparr>root_nhistogram := nh, best_gain := 0\<rparr>"
  define e where "e = calculate_shannon_entropy nh (n_labels ctx)"
  define cts where "cts = List.product [?cs..<?ce] [0..<?T]"
  have run: "thread_body ctx data td = Inr (fst (fold (candidate ctx lr e s) cts (td0, 0)))"
    using nh cond by (simp add: thread_body_def acc td0_def e_def cts_def Let_def)
  have inv0: "search_inv ctx ?ps ?cs ?ce ?rnh ?old td0"
    by (simp add: search_inv_def td0_def nh_eq)
  have "search_inv ctx ?ps ?cs ?ce ?rnh ?old (fst (fold (candidate ctx lr e s) cts (td0, 0)))"
  proof (rule fold_candidate_inv[where I = "search_inv ctx ?ps ?cs ?ce ?rnh ?old", OF inv0])
    fix j td1
    assume j: "j < length cts" and I: "search_inv ctx ?ps ?cs ?ce ?rnh ?old td1"
    from j have j': "j < (?ce - ?cs) * ?T" by (simp add: cts_def)
    note p = product_stripe_nth[OF j']
    have b: "0 + ?n * 2 * j = blk ctx ?cs (?cs + j div ?T) (j mod ?T)"
      by (simp add: blk_def)
    have ck: "?cs \<le> ?cs + j div ?T" by simp
    show "search_inv ctx ?ps ?cs ?ce ?rnh ?old
            (fst (candidate ctx lr e s (cts ! j) (td1, 0 + ?n * 2 * j)))"
      unfolding b cts_def p(1)
      by (rule candidate_inv(1)[OF spec ck p(2) p(3) length_node_pixels rn I])
  qed
  then show ?thesis using run by simp
qed

section \<open>Claims about the worker\<close>

lemma root_normalized_eq:
  "length buf = unat (n_labels ctx) \<Longrightarrow> root_normalized ctx data buf = node_distribution ctx data"
  by (simp add: root_normalized_def node_distribution_def normalize_histogram_snd)

lemma candidate_trivial_skip:
  assumes spec: "acc_spec ctx cs ce ps (replicate (lr_size ctx cs ce) 0) lr"
    and ck: "cs \<le> c" "c < ce" "k < unat (n_t ctx)"
    and len: "length ps < 2 ^ 32"
    and rn: "fst rn = of_nat (length ps)"
    and triv: "trivial_split ctx ps c k"
  shows "published (fst (candidate ctx lr e rn (c, k) (td, blk ctx cs c k))) = published td"
proof -
  let ?b = "blk ctx cs c k"
  have l: "fst (histogram_sums (drop ?b lr) (n_labels ctx)) = of_nat (n_left ctx ps c k)"
    using slice_counts[OF spec ck] by simp
  have Ll: "n_left ctx ps c k < 2 ^ 32"
    using n_left_le[of ctx ps c k] len by simp
  have "fst (histogram_sums (drop ?b lr) (n_labels ctx)) = 0 \<or>
        fst (histogram_sums (drop ?b lr) (n_labels ctx)) = fst rn"
    unfolding l rn using triv of_nat_u32_eq_0_iff[OF Ll] of_nat_u32_eq_iff[OF Ll len]
    by (simp add: trivial_split_iff)
  from candidate_skip[OF this, of e "(c, k)" td] show ?thesis
    by (simp add: published_def)
qed

text \<open>
  Claim C2. In the candidate loop of a worker, a pair of an offset and a threshold
  whose split is trivial (one side is empty or holds all pixels of the node) is
  skipped and is never published. After the round of a worker on a node with valid
  labels: a positive \<^verbatim>\<open>best_gain\<close> belongs to a pair of the stripe whose split is not
  trivial; with a gain of zero the other slots are as before the round; and the body
  of the loop leaves the slots as they are at every pair of the stripe whose split is
  trivial, whatever the slots hold. The test of the source looks at the left side
  only; the right side is the rest of the pixels, so its two cases are covered.
\<close>

theorem trivial_split_never_published:
  assumes "labels_ok ctx (node_pixels data)"
  shows "\<exists>td' rh lr.
     thread_body ctx data td = Inr td' \<and>
     (0 < best_gain td' \<longrightarrow>
        c_start td \<le> best_uv td' \<and> best_uv td' < c_end td \<and> best_t td' < unat (n_t ctx) \<and>
        \<not> trivial_split ctx (node_pixels data) (best_uv td') (best_t td')) \<and>
     (best_gain td' \<le> 0 \<longrightarrow> published td' = published (td\<lparr>best_gain := 0\<rparr>)) \<and>
     accumulate_histograms ctx data (c_start td) (c_end td)
       (replicate (unat (n_labels ctx)) 0)
       (replicate (unat (n_labels ctx) * (c_end td - c_start td) * unat (n_t ctx) * 2) 0) =
       Inr (rh, lr) \<and>
     (\<not> final_depth ctx data \<longrightarrow>
        (\<forall>c k e td1.
           c_start td \<le> c \<and> c < c_end td \<and> k < unat (n_t ctx) \<and>
           trivial_split ctx (node_pixels data) c k \<longrightarrow>
           published (fst (candidate ctx lr e (histogram_sums rh (n_labels ctx)) (c, k)
                             (td1, blk ctx (c_start td) c k))) = published td1))"
proof -
  let ?cs = "c_start td" and ?ce = "c_end td" and ?ps = "node_pixels data"
  from accumulate_from_zero[OF assms, where cs = ?cs and ce = ?ce]
  obtain lr where acc: "accumulate_histograms ctx data ?cs ?ce (replicate (unat (n_labels ctx)) 0)
      (replicate (unat (n_labels ctx) * (?ce - ?cs) * unat (n_t ctx) * 2) 0) =
      Inr (node_histogram ctx data, lr)"
    and spec: "\<not> final_depth ctx data \<Longrightarrow>
      acc_spec ctx ?cs ?ce ?ps (replicate (lr_size ctx ?cs ?ce) 0) lr"
    by (auto simp: lr_size_def split: if_splits)
  have rn: "fst (histogram_sums (node_histogram ctx data) (n_labels ctx)) = of_nat (length ?ps)"
    by (rule node_histogram_sums_fst[OF assms])
  have steps: "published (fst (candidate ctx lr e (histogram_sums (node_histogram ctx data)
        (n_labels ctx)) (c, k) (td1, blk ctx ?cs c k))) = published td1"
    if "\<not> final_depth ctx data" "?cs \<le> c" "c < ?ce" "k < unat (n_t ctx)"
      "trivial_split ctx ?ps c k" for c k e td1
    by (rule candidate_trivial_skip[OF spec[OF that(1)] that(2-4) length_node_pixels rn that(5)])
  have "\<exists>td'. thread_body ctx data td = Inr td' \<and>
     (0 < best_gain td' \<longrightarrow>
        ?cs \<le> best_uv td' \<and> best_uv td' < ?ce \<and> best_t td' < unat (n_t ctx) \<and>
        \<not> trivial_split ctx ?ps (best_uv td') (best_t td')) \<and>
     (best_gain td' \<le> 0 \<longrightarrow> published td' = published (td\<lparr>best_gain := 0\<rparr>))"
  proof (cases "searches ctx data")
    case True
    from thread_body_search[OF assms True, of td] show ?thesis
      by (auto simp: search_inv_def published_def)
  next
    case False
    from thread_body_no_search[OF assms False, of td] show ?thesis
      by (simp add: published_def)
  qed
  then show ?thesis using acc steps by blast
qed

text \<open>
  Claim C6. A worker publishes \<^verbatim>\<open>best_gain = 0\<close> without a candidate search when at
  most one label of the node is not empty or when the depth of the node is
  \<^verbatim>\<open>max_depth - 1\<close>: the round changes \<^verbatim>\<open>root_nhistogram\<close> and \<^verbatim>\<open>best_gain\<close> and nothing
  else, the scratch buffer of the search included. At that depth the histogram
  engine returns the left and right histograms as it received them.
\<close>

theorem no_search_for_pure_or_final_node:
  assumes "labels_ok ctx (node_pixels data)"
    and "k_root ctx data \<le> 1 \<or> node_depth data = ucast (max_depth ctx) - 1"
  shows "thread_body ctx data td =
           Inr (td\<lparr>root_nhistogram := root_normalized ctx data (root_nhistogram td),
                   best_gain := 0\<rparr>) \<and>
         (node_depth data = ucast (max_depth ctx) - 1 \<longrightarrow>
            (\<exists>rh'. accumulate_histograms ctx data cs ce rh lr = Inr (rh', lr)))"
proof -
  have "\<not> searches ctx data" using assms(2) by (auto simp: searches_def)
  from thread_body_no_search[OF assms(1) this]
  have a: "thread_body ctx data td =
      Inr (td\<lparr>root_nhistogram := root_normalized ctx data (root_nhistogram td), best_gain := 0\<rparr>)" .
  have b: "\<exists>rh'. accumulate_histograms ctx data cs ce rh lr = Inr (rh', lr)"
    if "node_depth data = ucast (max_depth ctx) - 1"
  proof -
    from that have "final_depth ctx data" by (simp add: final_depth_def)
    from accumulate_loop_final[OF assms(1) this] show ?thesis
      by (simp add: accumulate_histograms_def)
  qed
  from a b show ?thesis by blast
qed

lemma thread_body_root_nhistogram:
  assumes "labels_ok ctx (node_pixels data)"
  shows "\<exists>td'. thread_body ctx data td = Inr td' \<and>
           root_nhistogram td' = root_normalized ctx data (root_nhistogram td) \<and>
           c_start td' = c_start td \<and> c_end td' = c_end td \<and> 0 \<le> best_gain td'"
proof (cases "searches ctx data")
  case True
  from thread_body_search[OF assms True, of td] show ?thesis
    by (auto simp: search_inv_def)
next
  case False
  from thread_body_no_search[OF assms False, of td] show ?thesis by simp
qed

section \<open>The reduction over the workers\<close>

lemma reduce_step_reduced:
  assumes "reduced ws n s"
  shows "reduced ws (Suc n) (reduce_step ws n s)"
proof -
  obtain bg buv bt sel where s: "s = (bg, buv, bt, sel)" by (cases s) auto
  show ?thesis
  proof (cases sel)
    case None
    with assms s show ?thesis
      by (auto simp: reduced_def reduce_step_def less_Suc_eq)
  next
    case (Some w)
    with assms s show ?thesis
      by (auto simp: reduced_def reduce_step_def less_Suc_eq intro: order_trans less_imp_le
          less_le_trans le_less_trans)
  qed
qed

lemma fold_reduce_reduced:
  "reduced ws n (fold (reduce_step ws) [0..<n] (0, 0, 0, None))"
proof (induction n)
  case 0
  then show ?case by (simp add: reduced_def)
next
  case (Suc n)
  then show ?case using reduce_step_reduced[OF Suc] by simp
qed

lemma reduce_workers_reduced: "reduced ws (length ws) (reduce_workers ws)"
  unfolding reduce_workers_def by (rule fold_reduce_reduced)

lemma reduce_workers_all_zero:
  assumes "\<forall>k<length ws. best_gain (ws ! k) = 0"
  shows "reduce_workers ws = (0, 0, 0, None)"
proof -
  obtain bg buv bt sel where s: "reduce_workers ws = (bg, buv, bt, sel)"
    by (cases "reduce_workers ws") auto
  from reduce_workers_reduced[of ws] s assms show ?thesis
    by (cases sel) (auto simp: reduced_def)
qed

section \<open>The coordinator\<close>

lemma run_workers_ok:
  assumes "labels_ok ctx (node_pixels data)"
  shows "\<exists>ws. run_workers ctx data tds = Inr ws \<and> length ws = length tds \<and>
           (\<forall>k<length tds. thread_body ctx data (tds ! k) = Inr (ws ! k))"
proof (induction tds)
  case Nil
  then show ?case by simp
next
  case (Cons td tds)
  from thread_body_root_nhistogram[OF assms, of td]
  obtain td' where td': "thread_body ctx data td = Inr td'" by blast
  from Cons obtain ws where ws: "run_workers ctx data tds = Inr ws" "length ws = length tds"
    "\<forall>k<length tds. thread_body ctx data (tds ! k) = Inr (ws ! k)" by blast
  show ?case
  proof (intro exI[of _ "td' # ws"] conjI allI impI)
    show "run_workers ctx data (td # tds) = Inr (td' # ws)" using td' ws by simp
    show "length (td' # ws) = length (td # tds)" using ws by simp
    fix k assume "k < length (td # tds)"
    then show "thread_body ctx data ((td # tds) ! k) = Inr ((td' # ws) ! k)"
      using td' ws by (cases k) simp_all
  qed
qed

lemma train_node_leaf:
  assumes "train_queue tr = node_data # rest"
    and "run_workers ctx node_data (workers tr) = Inr ws"
    and "\<not> (0 < fst (reduce_workers ws) \<and> node_depth node_data + 1 < ucast (max_depth ctx))"
  shows "train_node ctx tr = Inr (make_leaf ctx tr node_data rest ws)"
  using assms by (auto simp: train_node_def make_leaf_def split: prod.splits)

lemma train_node_histograms:
  assumes "train_queue tr = node_data # rest"
    and "run_workers ctx node_data (workers tr) = Inr ws"
    and "train_node ctx tr = Inr tr'"
  shows "(tree_histograms tr' = tree_histograms tr \<and> train_queue tr' \<noteq> rest) \<or>
         tr' = make_leaf ctx tr node_data rest ws"
  using assms
  by (auto simp: train_node_def make_leaf_def Let_def
      split: prod.splits option.splits sum.splits if_splits)

section \<open>Claims about the coordinator\<close>

text \<open>
  Claim C3. The reduction of the coordinator runs over the workers in ascending
  order and compares with \<^verbatim>\<open>>\<close>: the selected worker has a positive gain that no
  worker exceeds and that no earlier worker reaches, so the earlier of two workers
  with equal gains wins. When every worker reports the gain 0 no worker is selected
  and the node becomes a leaf.
\<close>

theorem reduction_first_greatest_gain:
  "reduced ws (length ws) (reduce_workers ws) \<and>
   (train_queue tr = node_data # rest \<and> run_workers ctx node_data (workers tr) = Inr ws \<and>
    (\<forall>k<length ws. best_gain (ws ! k) = 0) \<longrightarrow>
      reduce_workers ws = (0, 0, 0, None) \<and>
      train_node ctx tr = Inr (make_leaf ctx tr node_data rest ws))"
proof (intro conjI impI)
  show "reduced ws (length ws) (reduce_workers ws)" by (rule reduce_workers_reduced)
next
  assume a: "train_queue tr = node_data # rest \<and> run_workers ctx node_data (workers tr) = Inr ws \<and>
    (\<forall>k<length ws. best_gain (ws ! k) = 0)"
  then show z: "reduce_workers ws = (0, 0, 0, None)"
    by (intro reduce_workers_all_zero) simp
  show "train_node ctx tr = Inr (make_leaf ctx tr node_data rest ws)"
    using a by (intro train_node_leaf) (simp_all add: z)
qed

text \<open>
  Claim C10. The root histogram a worker accumulates is the histogram of the labels
  of all pixels of the current node, whatever the stripe of the worker; the buffer
  \<^verbatim>\<open>root_nhistogram\<close> of worker 0 holds after the round the distribution of the
  current node, whatever it held before and also when the stripe is empty; and the
  distribution the coordinator appends for a leaf is the one of the current node.
\<close>

theorem leaf_distribution_of_current_node:
  assumes "labels_ok ctx (node_pixels node_data)"
    and "train_queue tr = node_data # rest"
    and "workers tr = td # tds"
    and "length (root_nhistogram td) = unat (n_labels ctx)"
  shows "(\<exists>lr. accumulate_histograms ctx node_data (c_start td) (c_end td)
                 (replicate (unat (n_labels ctx)) 0)
                 (replicate (unat (n_labels ctx) * (c_end td - c_start td) * unat (n_t ctx) * 2) 0) =
               Inr (node_histogram ctx node_data, lr)) \<and>
         (\<exists>td'. thread_body ctx node_data td = Inr td' \<and>
                 root_nhistogram td' = node_distribution ctx node_data) \<and>
         (\<forall>tr'. train_node ctx tr = Inr tr' \<longrightarrow>
            (tree_histograms tr' = tree_histograms tr \<and> train_queue tr' \<noteq> rest) \<or>
            (tree_histograms tr' = tree_histograms tr @ [node_distribution ctx node_data] \<and>
             train_queue tr' = rest))"
proof (intro conjI allI impI)
  from accumulate_from_zero[OF assms(1), where cs = "c_start td" and ce = "c_end td"]
  show "\<exists>lr. accumulate_histograms ctx node_data (c_start td) (c_end td)
                 (replicate (unat (n_labels ctx)) 0)
                 (replicate (unat (n_labels ctx) * (c_end td - c_start td) * unat (n_t ctx) * 2) 0) =
               Inr (node_histogram ctx node_data, lr)"
    by (auto simp: lr_size_def)
next
  from thread_body_root_nhistogram[OF assms(1), of td] root_normalized_eq[OF assms(4), of node_data]
  show "\<exists>td'. thread_body ctx node_data td = Inr td' \<and>
                 root_nhistogram td' = node_distribution ctx node_data"
    by auto
next
  fix tr' assume tn: "train_node ctx tr = Inr tr'"
  from run_workers_ok[OF assms(1), of "workers tr"]
  obtain ws where ws: "run_workers ctx node_data (workers tr) = Inr ws"
    "length ws = length (workers tr)"
    "\<forall>k<length (workers tr). thread_body ctx node_data (workers tr ! k) = Inr (ws ! k)"
    by blast
  have "thread_body ctx node_data td = Inr (ws ! 0)" using ws(3) assms(3) by auto
  with thread_body_root_nhistogram[OF assms(1), of td] root_normalized_eq[OF assms(4), of node_data]
  have rn: "root_nhistogram (ws ! 0) = node_distribution ctx node_data" by auto
  have len: "length (node_distribution ctx node_data) = unat (n_labels ctx)"
    by (simp add: node_distribution_def normalized_of_def)
  from train_node_histograms[OF assms(2) ws(1) tn]
  show "(tree_histograms tr' = tree_histograms tr \<and> train_queue tr' \<noteq> rest) \<or>
        (tree_histograms tr' = tree_histograms tr @ [node_distribution ctx node_data] \<and>
         train_queue tr' = rest)"
    by (auto simp: make_leaf_def rn len)
qed

lemma collect_loop_eq:
  "collect_loop ctx uv t lc rc ps (l, r) =
     (if (filter (\<lambda>p. flt (collect_value ctx p uv) t) ps = [] \<or>
          length l + length (filter (\<lambda>p. flt (collect_value ctx p uv) t) ps) \<le> lc) \<and>
         (filter (\<lambda>p. \<not> flt (collect_value ctx p uv) t) ps = [] \<or>
          length r + length (filter (\<lambda>p. \<not> flt (collect_value ctx p uv) t) ps) \<le> rc)
      then Inr (l @ filter (\<lambda>p. flt (collect_value ctx p uv) t) ps,
                r @ filter (\<lambda>p. \<not> flt (collect_value ctx p uv) t) ps)
      else Inl BufferOverrun)"
proof (induction ps arbitrary: l r)
  case Nil
  then show ?case by simp
next
  case (Cons p ps)
  show ?case
  proof (cases "flt (collect_value ctx p uv) t")
    case True
    show ?thesis
    proof (cases "length l < lc")
      case lt: True
      then show ?thesis using True Cons.IH[of "l @ [p]" r] by auto
    next
      case False
      then show ?thesis using True by auto
    qed
  next
    case False
    show ?thesis
    proof (cases "length r < rc")
      case lt: True
      then show ?thesis using False Cons.IH[of l "r @ [p]"] by auto
    next
      case nlt: False
      then show ?thesis using False by auto
    qed
  qed
qed

section \<open>The partitioner\<close>

lemma left_right_length:
  "length (left_pixels ctx data uv t) + length (right_pixels ctx data uv t) =
   length (node_pixels data)"
  by (simp add: left_pixels_def right_pixels_def sum_length_filter_compl)

lemma collect_pixels_eq:
  "collect_pixels ctx data uv t n_lr =
     (if hints_fit ctx data uv t n_lr
      then Inr (left_pixels ctx data uv t, right_pixels ctx data uv t,
                (of_nat (length (left_pixels ctx data uv t)),
                 of_nat (length (right_pixels ctx data uv t))))
      else Inl BufferOverrun)"
proof -
  let ?L = "left_pixels ctx data uv t" and ?R = "right_pixels ctx data uv t"
  have ll: "length ?L \<le> length (node_pixels data)" "length ?R \<le> length (node_pixels data)"
    by (simp_all add: left_pixels_def right_pixels_def)
  have np: "length (node_pixels data) \<le> unat (node_n_pixels data)"
    by (simp add: node_pixels_def)
  have fitl: "(?L = [] \<or> length ?L \<le> (if fst n_lr \<noteq> 0 then unat (fst n_lr)
                  else unat (node_n_pixels data))) \<longleftrightarrow>
              (fst n_lr = 0 \<or> length ?L \<le> unat (fst n_lr))"
    using ll np by auto
  have fitr: "(?R = [] \<or> length ?R \<le> (if snd n_lr \<noteq> 0 then unat (snd n_lr)
                  else unat (node_n_pixels data))) \<longleftrightarrow>
              (snd n_lr = 0 \<or> length ?R \<le> unat (snd n_lr))"
    using ll np by auto
  show ?thesis
    unfolding collect_pixels_def Let_def collect_loop_eq
    using fitl fitr
    by (auto simp: hints_fit_def left_pixels_def right_pixels_def)
qed

text \<open>
  Claim C4. The partitioner gives every pixel of the parent to exactly one child,
  to the left one when the feature is below the threshold and to the right one
  otherwise. When \<^verbatim>\<open>collect_pixels\<close> returns, the recorded counts are the lengths of
  the two lists, whatever the hints were, and their sum is the number of pixels of
  the parent. It returns whenever each hint is zero or at least the number of
  pixels of its side.
\<close>

theorem collect_pixels_partitions:
  assumes "node_ok data"
  shows "(hints_fit ctx data uv t n_lr \<longrightarrow> (\<exists>res. collect_pixels ctx data uv t n_lr = Inr res)) \<and>
         (\<forall>l_pixels r_pixels n.
            collect_pixels ctx data uv t n_lr = Inr (l_pixels, r_pixels, n) \<longrightarrow>
              l_pixels = filter (\<lambda>p. flt (collect_value ctx p uv) t) (node_pixels data) \<and>
              r_pixels = filter (\<lambda>p. \<not> flt (collect_value ctx p uv) t) (node_pixels data) \<and>
              unat (fst n) = length l_pixels \<and> unat (snd n) = length r_pixels \<and>
              unat (fst n) + unat (snd n) = unat (node_n_pixels data))"
proof -
  let ?L = "left_pixels ctx data uv t" and ?R = "right_pixels ctx data uv t"
  have sum: "length ?L + length ?R = unat (node_n_pixels data)"
    using left_right_length[of ctx data uv t] length_node_pixels_ok[OF assms] by simp
  have "unat (node_n_pixels data) < 2 ^ 32" using unsigned_less[of "node_n_pixels data"] by simp
  then have "length ?L < 2 ^ 32" "length ?R < 2 ^ 32" using sum by simp_all
  then have u: "unat (of_nat (length ?L) :: u32) = length ?L"
    "unat (of_nat (length ?R) :: u32) = length ?R"
    by (simp_all add: unat_of_nat_u32)
  show ?thesis
    unfolding collect_pixels_eq using u sum
    by (auto simp: left_pixels_def right_pixels_def)
qed

lemma hints_fit_zero: "hints_fit ctx data uv t (0, 0)"
  by (simp add: hints_fit_def)

section \<open>The thresholds\<close>





section \<open>The sign of the pixel sum\<close>

lemma upt_2: "[0..<2] = [0, Suc 0]"
  by (simp add: upt_rec)

lemma sint_2_31: "sint (2147483648 :: u32) = - 2147483648"
  by simp

lemma histogram_sums_big: "histogram_sums [2147483648, 0] 2 = (2147483648, 1)"
  by (simp add: histogram_sums_def upt_2)

text \<open>
  Claim C5 says that every leaf distribution is all zero for a leaf without pixels
  and sums to 1 otherwise. \<^verbatim>\<open>normalize_histogram\<close> keeps the sum of the \<^verbatim>\<open>uint32_t\<close>
  counts in an \<^verbatim>\<open>int32_t\<close>: for a histogram of \<open>2 ^ 31\<close> pixels, all with the first
  label, the sum is negative and the distribution is all zero.
\<close>

theorem normalize_histogram_sign_overflow:
  "normalize_histogram [2147483648, 0] 2 [a, b] = ((2147483648, 1), [0, 0])"
  by (simp add: normalize_histogram_def histogram_sums_big upt_2 Let_def)

lemma log2_half: "log 2 (1 / 2) = - 1"
proof -
  have "log 2 (1 / 2) = log 2 1 - log 2 2" by (simp add: log_divide)
  then show ?thesis by simp
qed

lemma entropy_half: "calculate_shannon_entropy [1 / 2, 1 / 2] 2 = 1"
  by (simp add: calculate_shannon_entropy_def upt_2 Let_def log2_half)

lemma entropy_zero: "calculate_shannon_entropy [0, 0] 2 = 0"
  by (simp add: calculate_shannon_entropy_def upt_2 Let_def)

lemma entropy_one_hot: "calculate_shannon_entropy [1, 0] 2 = 0"
  by (simp add: calculate_shannon_entropy_def upt_2 Let_def)

lemma normalize_root: "normalize_histogram [2147483647, 1] 2 [a, b] = ((2147483648, 2), [0, 0])"
  by (simp add: normalize_histogram_def histogram_sums_def upt_2 Let_def)

lemma normalize_left: "normalize_histogram [1, 1] 2 [a, b] = ((2, 2), [1 / 2, 1 / 2])"
  by (simp add: normalize_histogram_def histogram_sums_def upt_2 Let_def)

lemma normalize_right: "normalize_histogram [2147483646, 0] 2 [a, b] = ((2147483646, 1), [1, 0])"
  by (simp add: normalize_histogram_def histogram_sums_def upt_2 Let_def)

text \<open>
  Claim C8 says that the gain of a split that is not trivial is not negative when
  the parent has two labels. For a parent of \<open>2 ^ 31\<close> pixels with the histogram
  \<open>[2 ^ 31 - 1, 1]\<close>, split into \<open>[1, 1]\<close> and \<open>[2 ^ 31 - 2, 0]\<close>, the sum of the parent
  is negative as an \<^verbatim>\<open>int32_t\<close>, its distribution is all zero and its entropy is 0;
  the gain is \<open>- 1 / 2 ^ 30\<close>.
\<close>

theorem gain_negative_on_sign_overflow:
  "(let (root_n_pixels, root_nh) = normalize_histogram [2147483647, 1] 2 [0, 0];
        (l_n_pixels, l_nh) = normalize_histogram [1, 1] 2 [0, 0];
        (r_n_pixels, r_nh) = normalize_histogram [2147483646, 0] 2 [0, 0]
    in calculate_gain (calculate_shannon_entropy root_nh 2) (fst root_n_pixels)
         (calculate_shannon_entropy l_nh 2) (fst l_n_pixels)
         (calculate_shannon_entropy r_nh 2) (fst r_n_pixels)) = - (1 / 2 ^ 30)"
  by (simp add: normalize_root normalize_left normalize_right entropy_half entropy_zero
      entropy_one_hot calculate_gain_def)

section \<open>Resuming from a checkpoint\<close>


section \<open>The small training set, evaluated\<close>

lemma example_pixels [simp]:
  "node_pixels example_node = [\<lparr>xy = (0, 0), image_i = 0\<rparr>, \<lparr>xy = (1, 0), image_i = 0\<rparr>]"
  by (simp add: node_pixels_def example_node_def)

lemma example_labels [simp]:
  "label_of example_ctx \<lparr>xy = (0, 0), image_i = 0\<rparr> = 0"
  "label_of example_ctx \<lparr>xy = (1, 0), image_i = 0\<rparr> = 1"
  by (simp_all add: label_of_def image_idx_def pixel_idx_def example_ctx_def)

lemma example_labels_ok: "labels_ok example_ctx (node_pixels example_node)"
  by (simp add: labels_ok_def) (simp add: example_ctx_def)

lemma example_features [simp]:
  "pixel_feature example_ctx \<lparr>xy = (0, 0), image_i = 0\<rparr> (1, 0, 0, 0) = 2"
  "pixel_feature example_ctx \<lparr>xy = (1, 0), image_i = 0\<rparr> (1, 0, 0, 0) = 0"
  by (simp_all add: pixel_feature_def sample_uv_def depth_image_of_def depth_of_def image_idx_def
      pixel_idx_def example_ctx_def uv_coord_def fdiv_def int32_of_float_def c_trunc_def
      in_image_def Let_def)

lemma example_scalars [simp]:
  "n_labels example_ctx = 2" "n_t example_ctx = 2" "max_depth example_ctx = 3"
  "uvs example_ctx = [(1, 0, 0, 0)]" "ts example_ctx = [Some (- 1 / 2), Some (1 / 2)]"
  "node_depth example_node = 0" "node_id example_node = 0"
  by (simp_all add: example_ctx_def example_node_def)

lemma product_1_2: "List.product [0..<Suc 0] [0..<2] = [(0, 0), (0, Suc 0)]"
  by (simp add: upt_rec)

lemma example_accumulate:
  "accumulate_histograms example_ctx example_node 0 (Suc 0) [0, 0] [0, 0, 0, 0, 0, 0, 0, 0] =
     Inr ([1, 1], [0, 0, 1, 1, 0, 1, 1, 0])"
  by (simp add: accumulate_histograms_def accumulate_pixel_def Let_def lr_step_def incr_def
      flt_def product_1_2 upt_rec word_le_nat_alt)

lemma example_accumulate_idle:
  "accumulate_histograms example_ctx example_node 0 0 [0, 0] [] = Inr ([1, 1], [])"
  by (simp add: accumulate_histograms_def accumulate_pixel_def Let_def lr_step_def incr_def
      flt_def upt_rec word_le_nat_alt)

lemma replicate_2: "replicate 2 x = [x, x]"
  by (simp add: numeral_2_eq_2)

lemma replicate_8: "replicate 8 x = [x, x, x, x, x, x, x, x]"
  by (simp add: numeral_eq_Suc)

lemma normalize_11: "normalize_histogram [1, 1] 2 [a, b] = ((2, 2), [1 / 2, 1 / 2])"
  by (simp add: normalize_histogram_def histogram_sums_def upt_2 Let_def)

lemma normalize_00: "normalize_histogram [0, 0] 2 [a, b] = ((0, 0), [0, 0])"
  by (simp add: normalize_histogram_def histogram_sums_def upt_2 Let_def)

lemma normalize_01: "normalize_histogram [0, 1] 2 [a, b] = ((1, 1), [0, 1])"
  by (simp add: normalize_histogram_def histogram_sums_def upt_2 Let_def)

lemma normalize_10: "normalize_histogram [1, 0] 2 [a, b] = ((1, 1), [1, 0])"
  by (simp add: normalize_histogram_def histogram_sums_def upt_2 Let_def)

lemma normalize_prefix:
  "normalize_histogram (a # b # c # rest) 2 buf = normalize_histogram [a, b] 2 buf"
  by (simp add: normalize_histogram_def histogram_sums_def upt_2 Let_def)

lemma entropy_01: "calculate_shannon_entropy [0, 1] 2 = 0"
  by (simp add: calculate_shannon_entropy_def upt_2 Let_def)

lemma example_thread_body:
  "thread_body example_ctx example_node example_worker =
     Inr \<lparr>c_start = 0, c_end = 1, root_nhistogram = [1 / 2, 1 / 2], nhistogram = [1, 0],
          best_gain = 1, best_uv = 0, best_t = 1, n_lr_pixels = (1, 1)\<rparr>"
  by (simp add: thread_body_def example_worker_def replicate_2 replicate_8 example_accumulate
      normalize_11 normalize_00 normalize_01 normalize_10 entropy_half entropy_01 entropy_one_hot
      entropy_zero candidate_def product_1_2 calculate_gain_def Let_def upt_2 normalize_prefix)

lemma example_thread_body_idle:
  "thread_body example_ctx example_node idle_worker =
     Inr \<lparr>c_start = 0, c_end = 0, root_nhistogram = [1 / 2, 1 / 2], nhistogram = [0, 0],
          best_gain = 0, best_uv = 9, best_t = 9, n_lr_pixels = (9, 9)\<rparr>"
  by (simp add: thread_body_def idle_worker_def replicate_2 example_accumulate_idle
      normalize_11 entropy_half Let_def)

section \<open>The small training set: resuming\<close>



section \<open>The small training set: the worker\<close>

lemma example_goes_left [simp]:
  "goes_left example_ctx \<lparr>xy = (0, 0), image_i = 0\<rparr> 0 0 = False"
  "goes_left example_ctx \<lparr>xy = (1, 0), image_i = 0\<rparr> 0 0 = False"
  "goes_left example_ctx \<lparr>xy = (0, 0), image_i = 0\<rparr> 0 (Suc 0) = False"
  "goes_left example_ctx \<lparr>xy = (1, 0), image_i = 0\<rparr> 0 (Suc 0) = True"
  by (simp_all add: goes_left_def flt_def)

theorem trivial_split_never_published_witness:
  "labels_ok example_ctx (node_pixels example_node) \<and>
   thread_body example_ctx example_node example_worker =
     Inr \<lparr>c_start = 0, c_end = 1, root_nhistogram = [1 / 2, 1 / 2], nhistogram = [1, 0],
          best_gain = 1, best_uv = 0, best_t = 1, n_lr_pixels = (1, 1)\<rparr> \<and>
   \<not> trivial_split example_ctx (node_pixels example_node) 0 1 \<and>
   trivial_split example_ctx (node_pixels example_node) 0 0"
proof -
  from trivial_split_never_published[OF example_labels_ok, of example_worker]
  obtain td' where td': "thread_body example_ctx example_node example_worker = Inr td'"
    and nt: "0 < best_gain td' \<longrightarrow>
        \<not> trivial_split example_ctx (node_pixels example_node) (best_uv td') (best_t td')"
    by blast
  from td' have "td' = \<lparr>c_start = 0, c_end = 1, root_nhistogram = [1 / 2, 1 / 2],
      nhistogram = [1, 0], best_gain = 1, best_uv = 0, best_t = 1, n_lr_pixels = (1, 1)\<rparr>"
    by (simp add: example_thread_body)
  with nt have "\<not> trivial_split example_ctx (node_pixels example_node) 0 1" by simp
  moreover have "trivial_split example_ctx (node_pixels example_node) 0 0"
    by (simp add: trivial_split_def n_left_def)
  ultimately show ?thesis using example_labels_ok example_thread_body by simp
qed

lemma example_final_labels_ok:
  "labels_ok example_ctx (node_pixels (example_node\<lparr>node_depth := 2\<rparr>))"
  using example_labels_ok by (simp add: node_pixels_def)

lemma example_distribution:
  "root_normalized example_ctx (example_node\<lparr>node_depth := d\<rparr>) [a, b] = [1 / 2, 1 / 2]"
proof -
  have np: "node_pixels (example_node\<lparr>node_depth := d\<rparr>) = node_pixels example_node"
    by (simp add: node_pixels_def)
  have "node_histogram example_ctx (example_node\<lparr>node_depth := d\<rparr>) = [1, 1]"
    by (simp add: node_histogram_def np n_label_def upt_2)
  then show ?thesis
    by (simp add: root_normalized_def normalize_11)
qed

theorem no_search_for_pure_or_final_node_witness:
  "labels_ok example_ctx (node_pixels (example_node\<lparr>node_depth := 2\<rparr>)) \<and>
   node_depth (example_node\<lparr>node_depth := 2\<rparr>) = ucast (max_depth example_ctx) - 1 \<and>
   thread_body example_ctx (example_node\<lparr>node_depth := 2\<rparr>) example_worker =
     Inr (example_worker\<lparr>root_nhistogram := [1 / 2, 1 / 2], best_gain := 0\<rparr>) \<and>
   (\<exists>rh'. accumulate_histograms example_ctx (example_node\<lparr>node_depth := 2\<rparr>) 0 1
             [0, 0] [0, 0, 0, 0, 0, 0, 0, 0] = Inr (rh', [0, 0, 0, 0, 0, 0, 0, 0]))"
proof -
  have d: "node_depth (example_node\<lparr>node_depth := 2\<rparr>) = ucast (max_depth example_ctx) - 1"
    by simp
  then have h: "k_root example_ctx (example_node\<lparr>node_depth := 2\<rparr>) \<le> 1 \<or>
      node_depth (example_node\<lparr>node_depth := 2\<rparr>) = ucast (max_depth example_ctx) - 1"
    by simp
  have rn: "root_nhistogram example_worker = [1, 0]" by (simp add: example_worker_def)
  from no_search_for_pure_or_final_node[OF example_final_labels_ok h, of example_worker 0 1
      "[0, 0]" "[0, 0, 0, 0, 0, 0, 0, 0]"] d
  show ?thesis
    using example_final_labels_ok by (simp add: rn example_distribution)
qed

section \<open>The small training set: the partitioner and the coordinator\<close>

lemma example_collect_values [simp]:
  "collect_value example_ctx \<lparr>xy = (0, 0), image_i = 0\<rparr> (1, 0, 0, 0) = 2"
  "collect_value example_ctx \<lparr>xy = (1, 0), image_i = 0\<rparr> (1, 0, 0, 0) = 0"
  by (simp_all add: collect_value_def sample_uv_def depth_image_of_def depth_of_int_def
      image_idx_def pixel_idx_def example_ctx_def uv_coord_def fdiv_def int32_of_float_def
      c_trunc_def in_image_def Let_def)

lemma example_node_ok: "node_ok example_node"
  by (simp add: node_ok_def example_node_def)

theorem collect_pixels_partitions_witness:
  "node_ok example_node \<and>
   hints_fit example_ctx example_node (1, 0, 0, 0) (Some (1 / 2)) (5, 0) \<and>
   (\<exists>n. collect_pixels example_ctx example_node (1, 0, 0, 0) (Some (1 / 2)) (5, 0) =
          Inr ([\<lparr>xy = (1, 0), image_i = 0\<rparr>], [\<lparr>xy = (0, 0), image_i = 0\<rparr>], n) \<and>
        unat (fst n) = 1 \<and> unat (snd n) = 1 \<and>
        unat (fst n) + unat (snd n) = unat (node_n_pixels example_node))"
proof -
  have fit: "hints_fit example_ctx example_node (1, 0, 0, 0) (Some (1 / 2)) (5, 0)"
    by (simp add: hints_fit_def left_pixels_def flt_def)
  note part = collect_pixels_partitions[OF example_node_ok, of example_ctx "(1, 0, 0, 0)"
      "Some (1 / 2)" "(5, 0)"]
  from part fit obtain l r n where
    res: "collect_pixels example_ctx example_node (1, 0, 0, 0) (Some (1 / 2)) (5, 0) = Inr (l, r, n)"
    by (metis prod_cases3)
  from part res have
    "l = filter (\<lambda>p. flt (collect_value example_ctx p (1, 0, 0, 0)) (Some (1 / 2)))
           (node_pixels example_node)"
    "r = filter (\<lambda>p. \<not> flt (collect_value example_ctx p (1, 0, 0, 0)) (Some (1 / 2)))
           (node_pixels example_node)"
    "unat (fst n) = length l" "unat (snd n) = length r"
    "unat (fst n) + unat (snd n) = unat (node_n_pixels example_node)"
    by blast+
  then show ?thesis
    using res fit example_node_ok by (simp add: flt_def)
qed

lemma upt_3: "[0..<3] = [0, Suc 0, Suc (Suc 0)]"
  by (simp add: upt_rec)

lemma example_reduce: "reduce_workers example_gains = (1, 4, 9, Some 1)"
  by (simp add: reduce_workers_def reduce_step_def example_gains_def example_worker_def upt_3)

lemma example_run_final:
  "run_workers example_ctx (example_node\<lparr>node_depth := 2\<rparr>) [idle_worker, example_worker] =
     Inr [idle_worker\<lparr>root_nhistogram := [1 / 2, 1 / 2], best_gain := 0\<rparr>,
          example_worker\<lparr>root_nhistogram := [1 / 2, 1 / 2], best_gain := 0\<rparr>]"
proof -
  have ns: "\<not> searches example_ctx (example_node\<lparr>node_depth := 2\<rparr>)"
    by (simp add: searches_def)
  have rn: "root_nhistogram example_worker = [1, 0]" "root_nhistogram idle_worker = [1, 0]"
    by (simp_all add: example_worker_def idle_worker_def)
  have t1: "thread_body example_ctx (example_node\<lparr>node_depth := 2\<rparr>) idle_worker =
      Inr (idle_worker\<lparr>root_nhistogram := [1 / 2, 1 / 2], best_gain := 0\<rparr>)"
    using thread_body_no_search[OF example_final_labels_ok ns, of idle_worker]
    by (simp add: rn example_distribution)
  have t2: "thread_body example_ctx (example_node\<lparr>node_depth := 2\<rparr>) example_worker =
      Inr (example_worker\<lparr>root_nhistogram := [1 / 2, 1 / 2], best_gain := 0\<rparr>)"
    using thread_body_no_search[OF example_final_labels_ok ns, of example_worker]
    by (simp add: rn example_distribution)
  show ?thesis by (simp add: t1 t2)
qed

theorem reduction_first_greatest_gain_witness:
  "reduce_workers example_gains = (1, 4, 9, Some 1) \<and>
   reduced example_gains 3 (1, 4, 9, Some 1) \<and>
   train_node example_ctx (example_trainer\<lparr>train_queue := [example_node\<lparr>node_depth := 2\<rparr>]\<rparr>) =
     Inr (make_leaf example_ctx
            (example_trainer\<lparr>train_queue := [example_node\<lparr>node_depth := 2\<rparr>]\<rparr>)
            (example_node\<lparr>node_depth := 2\<rparr>) []
            [idle_worker\<lparr>root_nhistogram := [1 / 2, 1 / 2], best_gain := 0\<rparr>,
             example_worker\<lparr>root_nhistogram := [1 / 2, 1 / 2], best_gain := 0\<rparr>])"
proof -
  let ?tr = "example_trainer\<lparr>train_queue := [example_node\<lparr>node_depth := 2\<rparr>]\<rparr>"
  let ?ws = "[idle_worker\<lparr>root_nhistogram := [1 / 2, 1 / 2], best_gain := 0\<rparr>,
              example_worker\<lparr>root_nhistogram := [1 / 2, 1 / 2], best_gain := 0\<rparr>]"
  have r: "reduced example_gains 3 (1, 4, 9, Some 1)"
    using reduction_first_greatest_gain[of example_gains, THEN conjunct1]
    by (simp add: example_reduce) (simp add: example_gains_def numeral_3_eq_3)
  have prem: "train_queue ?tr = example_node\<lparr>node_depth := 2\<rparr> # [] \<and>
      run_workers example_ctx (example_node\<lparr>node_depth := 2\<rparr>) (workers ?tr) = Inr ?ws \<and>
      (\<forall>k<length ?ws. best_gain (?ws ! k) = 0)"
  proof -
    have "workers ?tr = [idle_worker, example_worker]" "train_queue ?tr = [example_node\<lparr>node_depth := 2\<rparr>]"
      by (simp_all add: example_trainer_def)
    moreover have "\<forall>k<length ?ws. best_gain (?ws ! k) = 0"
      by (simp add: less_Suc_eq)
    ultimately show ?thesis using example_run_final by (simp only:)
  qed
  from reduction_first_greatest_gain[of ?ws ?tr "example_node\<lparr>node_depth := 2\<rparr>" "[]" example_ctx,
      THEN conjunct2, THEN mp, OF prem]
  show ?thesis using r example_reduce by simp
qed

lemma example_node_distribution: "node_distribution example_ctx example_node = [1 / 2, 1 / 2]"
proof -
  have "node_histogram example_ctx example_node = [1, 1]"
    by (simp add: node_histogram_def n_label_def upt_2)
  moreover have "normalized_of [1, 1] 2 = [1 / 2, 1 / 2]"
    by (simp add: normalized_of_def histogram_sums_def upt_2)
  ultimately show ?thesis by (simp add: node_distribution_def)
qed

theorem leaf_distribution_of_current_node_witness:
  "labels_ok example_ctx (node_pixels example_node) \<and>
   train_queue example_trainer = example_node # [] \<and>
   workers example_trainer = idle_worker # [example_worker] \<and>
   c_start idle_worker = c_end idle_worker \<and>
   root_nhistogram idle_worker = [1, 0] \<and>
   (\<exists>td'. thread_body example_ctx example_node idle_worker = Inr td' \<and>
           root_nhistogram td' = [1 / 2, 1 / 2])"
proof -
  have q: "train_queue example_trainer = example_node # []"
    and w: "workers example_trainer = idle_worker # [example_worker]"
    and l: "length (root_nhistogram idle_worker) = unat (n_labels example_ctx)"
    by (simp_all add: example_trainer_def idle_worker_def)
  from leaf_distribution_of_current_node[OF example_labels_ok q w l]
  have "\<exists>td'. thread_body example_ctx example_node idle_worker = Inr td' \<and>
           root_nhistogram td' = node_distribution example_ctx example_node"
    by blast
  then show ?thesis
    using example_labels_ok q w by (simp add: example_node_distribution idle_worker_def)
qed

section \<open>The distribution of a node below \<open>2 ^ 31\<close> pixels\<close>

lemma n_label_sum:
  assumes "labels_ok ctx ps"
  shows "(\<Sum>k = 0..<unat (n_labels ctx). n_label ctx ps k) = length ps"
  using assms
proof (induction ps)
  case Nil
  then show ?case by (simp add: n_label_def)
next
  case (Cons p ps)
  then have lp: "unat (label_of ctx p) < unat (n_labels ctx)" and rest: "labels_ok ctx ps"
    by (simp_all add: labels_ok_def word_less_nat_alt)
  have step: "n_label ctx (p # ps) k = (if unat (label_of ctx p) = k then 1 else 0) + n_label ctx ps k"
    for k by (simp add: n_label_def)
  have "(\<Sum>k = 0..<unat (n_labels ctx). n_label ctx (p # ps) k) =
        (\<Sum>k = 0..<unat (n_labels ctx). (if unat (label_of ctx p) = k then 1 else 0)) +
        (\<Sum>k = 0..<unat (n_labels ctx). n_label ctx ps k)"
    unfolding step by (rule sum.distrib)
  also have "(\<Sum>k = 0..<unat (n_labels ctx). (if unat (label_of ctx p) = k then 1 else 0)) = (1::nat)"
    using lp by simp
  finally show ?case using Cons.IH[OF rest] by simp
qed

lemma node_distribution_valid:
  assumes "labels_ok ctx (node_pixels data)" and "length (node_pixels data) < 2 ^ 31"
  shows "(\<forall>x \<in> set (node_distribution ctx data). 0 \<le> x) \<and>
         (node_pixels data = [] \<longrightarrow>
            node_distribution ctx data = replicate (unat (n_labels ctx)) 0) \<and>
         (node_pixels data \<noteq> [] \<longrightarrow> sum_list (node_distribution ctx data) = 1)"
proof -
  let ?ps = "node_pixels data" and ?n = "unat (n_labels ctx)"
  let ?N = "length (node_pixels data)"
  have total: "sint (fst (histogram_sums (node_histogram ctx data) (n_labels ctx))) = int ?N"
    by (simp add: node_histogram_sums_fst[OF assms(1)] sint_of_nat_32[OF assms(2)])
  have entry: "unat (node_histogram ctx data ! k) = n_label ctx ?ps k" if "k < ?n" for k
  proof -
    have "n_label ctx ?ps k < 2 ^ 32"
      using n_label_le[of ctx ?ps k] assms(2) by simp
    then show ?thesis by (simp add: node_histogram_nth[OF that] unat_of_nat_u32)
  qed
  show ?thesis
  proof (cases "?ps = []")
    case True
    then show ?thesis
      using total by (simp add: node_distribution_def normalized_of_def)
  next
    case False
    then have pos: "0 < ?N" by simp
    have "map (\<lambda>k. real (unat (node_histogram ctx data ! k)) / real_of_int (int ?N)) [0..<?n] =
          map (\<lambda>k. real (n_label ctx ?ps k) / real ?N) [0..<?n]"
      by (rule map_cong[OF refl]) (simp add: entry)
    then have eq: "node_distribution ctx data =
        map (\<lambda>k. real (n_label ctx ?ps k) / real ?N) [0..<?n]"
      using pos by (simp only: node_distribution_def normalized_of_def total) simp
    have "sum_list (node_distribution ctx data) = (\<Sum>k = 0..<?n. real (n_label ctx ?ps k) / real ?N)"
      unfolding eq by (simp add: interv_sum_list_conv_sum_set_nat)
    also have "\<dots> = real (\<Sum>k = 0..<?n. n_label ctx ?ps k) / real ?N"
      by (simp add: sum_divide_distrib)
    also have "\<dots> = 1"
      using n_label_sum[OF assms(1)] pos by simp
    finally have "sum_list (node_distribution ctx data) = 1" .
    moreover have "\<forall>x \<in> set (node_distribution ctx data). 0 \<le> x"
      unfolding eq by auto
    ultimately show ?thesis using False by simp
  qed
qed

section \<open>The gain in exact arithmetic\<close>

lemma entropy_as_sum:
  "calculate_shannon_entropy nh nl = (\<Sum>k = 0..<unat nl. ent (nh ! k))"
proof -
  have "fold (\<lambda>k entropy. let v = nh ! k
                           in if 0 < v \<and> v < 1 then entropy + (- v * log 2 v) else entropy)
          [0..<n] e0 = e0 + (\<Sum>k = 0..<n. ent (nh ! k))" for n e0
    by (induction n) (simp_all add: ent_def Let_def)
  then show ?thesis by (simp add: calculate_shannon_entropy_def)
qed

lemma ent_scaled:
  assumes "0 < s" "0 \<le> c" "c \<le> s"
  shows "ent (c / s) * s * ln 2 = - xlnx c s"
proof (cases "0 < c")
  case True
  show ?thesis
  proof (cases "c < s")
    case lt: True
    then have "0 < c / s" "c / s < 1" using True assms by simp_all
    then have "ent (c / s) = - (c / s) * (ln (c / s) / ln 2)"
      by (simp add: ent_def log_def)
    then show ?thesis using True assms by (simp add: xlnx_def)
  next
    case False
    then have "c = s" using assms by simp
    then show ?thesis using True by (simp add: ent_def xlnx_def)
  qed
next
  case False
  then have "c = 0" using assms by simp
  then show ?thesis by (simp add: ent_def xlnx_def)
qed

lemma ln_ratio_bound:
  fixes a x :: real
  assumes "0 < a" "0 < x"
  shows "a - a / x \<le> a * ln x"
proof -
  have "0 < 1 / x" using assms by simp
  then have "ln (1 / x) \<le> 1 / x - 1" by (rule ln_le_minus_one)
  moreover have "ln (1 / x) = ln 1 - ln x" using assms by (intro ln_divide_pos) simp_all
  ultimately have "1 - 1 / x \<le> ln x" by simp
  then have "a * (1 - 1 / x) \<le> a * ln x" using assms by (intro mult_left_mono) simp_all
  then show ?thesis by (simp add: algebra_simps)
qed

lemma side_bound:
  assumes "0 \<le> a" "0 < A" "0 < h" "0 < N" "a \<le> h"
  shows "a - A * h / N \<le> xlnx a A - a * ln (h / N)"
proof (cases "0 < a")
  case True
  have pos: "0 < (a / A) / (h / N)" using True assms by simp
  have "xlnx a A - a * ln (h / N) = a * (ln (a / A) - ln (h / N))"
    using True by (simp add: xlnx_def algebra_simps)
  also have "ln (a / A) - ln (h / N) = ln ((a / A) / (h / N))"
  proof -
    have "0 < a / A" "0 < h / N" using True assms by simp_all
    then show ?thesis by (rule ln_divide_pos[symmetric])
  qed
  finally have eq: "xlnx a A - a * ln (h / N) = a * ln ((a / A) / (h / N))" .
  have "a - a / ((a / A) / (h / N)) \<le> a * ln ((a / A) / (h / N))"
    by (rule ln_ratio_bound[OF True pos])
  moreover have "a / ((a / A) / (h / N)) = A * h / N"
    using True assms by (simp add: field_simps)
  ultimately show ?thesis using eq by simp
next
  case False
  then have "a = 0" using assms by simp
  then show ?thesis using assms by (simp add: xlnx_def)
qed

lemma term_nonneg:
  assumes "0 \<le> a" "0 \<le> b" "0 < A" "0 < B"
  shows "0 \<le> xlnx a A + xlnx b B - xlnx (a + b) (A + B)"
proof (cases "0 < a + b")
  case True
  let ?h = "a + b" and ?N = "A + B"
  have N: "0 < ?N" using assms by simp
  have l: "a - A * ?h / ?N \<le> xlnx a A - a * ln (?h / ?N)"
    using assms True N by (intro side_bound) simp_all
  have r: "b - B * ?h / ?N \<le> xlnx b B - b * ln (?h / ?N)"
    using assms True N by (intro side_bound) simp_all
  have "(a - A * ?h / ?N) + (b - B * ?h / ?N) = 0"
    using N by (simp add: field_simps)
  moreover have "xlnx ?h ?N = a * ln (?h / ?N) + b * ln (?h / ?N)"
    using True by (simp add: xlnx_def algebra_simps)
  ultimately show ?thesis using l r by linarith
next
  case False
  then have "a = 0" "b = 0" using assms by simp_all
  then show ?thesis by (simp add: xlnx_def)
qed

lemma sum_list_take_of_nat:
  "n \<le> length h \<Longrightarrow> sum_list (take n h) = (of_nat (\<Sum>k = 0..<n. unat (h ! k)) :: u32)"
proof (induction n)
  case 0
  then show ?case by simp
next
  case (Suc n)
  then show ?case by (simp add: take_Suc_conv_app_nth)
qed

lemma histogram_sums_total:
  assumes "unat nl \<le> length h"
  shows "fst (histogram_sums h nl) = of_nat (hist_total h nl)"
  using histogram_sums_fst[OF assms] sum_list_take_of_nat[OF assms] by (simp add: hist_total_def)

lemma entry_le_total: "k < unat nl \<Longrightarrow> unat (h ! k) \<le> hist_total h nl"
proof -
  assume "k < unat nl"
  then have "k \<in> {0..<unat nl}" by simp
  then have "unat (h ! k) \<le> (\<Sum>j \<in> {0..<unat nl}. unat (h ! j))"
    by (intro member_le_sum) simp_all
  then show ?thesis by (simp add: hist_total_def)
qed

lemma normalized_of_total:
  assumes "unat nl \<le> length h" "0 < hist_total h nl" "hist_total h nl < 2 ^ 31"
  shows "normalized_of h nl = map (\<lambda>k. real (unat (h ! k)) / real (hist_total h nl)) [0..<unat nl]"
proof -
  have "sint (fst (histogram_sums h nl)) = int (hist_total h nl)"
    by (simp add: histogram_sums_total[OF assms(1)] sint_of_nat_32[OF assms(3)])
  then show ?thesis using assms(2) by (simp add: normalized_of_def)
qed

lemma entropy_scaled:
  assumes "unat nl \<le> length h" "0 < hist_total h nl" "hist_total h nl < 2 ^ 31"
  shows "calculate_shannon_entropy (normalized_of h nl) nl * real (hist_total h nl) * ln 2 =
         - (\<Sum>k = 0..<unat nl. xlnx (real (unat (h ! k))) (real (hist_total h nl)))"
proof -
  let ?S = "real (hist_total h nl)"
  have "calculate_shannon_entropy (normalized_of h nl) nl =
        (\<Sum>k = 0..<unat nl. ent (real (unat (h ! k)) / ?S))"
    unfolding entropy_as_sum normalized_of_total[OF assms]
    by (rule sum.cong) simp_all
  then have "calculate_shannon_entropy (normalized_of h nl) nl * ?S * ln 2 =
        (\<Sum>k = 0..<unat nl. ent (real (unat (h ! k)) / ?S) * ?S * ln 2)"
    by (simp add: sum_distrib_right)
  also have "\<dots> = (\<Sum>k = 0..<unat nl. - xlnx (real (unat (h ! k))) ?S)"
  proof (rule sum.cong[OF refl])
    fix k assume "k \<in> {0..<unat nl}"
    then have "unat (h ! k) \<le> hist_total h nl" using entry_le_total[of k nl h] by simp
    then have le: "real (unat (h ! k)) \<le> ?S" by (simp only: of_nat_le_iff)
    have pos: "0 < ?S" using assms(2) by simp
    show "ent (real (unat (h ! k)) / ?S) * ?S * ln 2 = - xlnx (real (unat (h ! k))) ?S"
      by (rule ent_scaled[OF pos of_nat_0_le_iff le])
  qed
  finally show ?thesis by (simp add: sum_negf)
qed

lemma gain_nonneg_exact:
  assumes len: "unat nl \<le> length h" "unat nl \<le> length l" "unat nl \<le> length r"
    and split: "\<forall>k<unat nl. unat (h ! k) = unat (l ! k) + unat (r ! k)"
    and nontrivial: "0 < hist_total l nl" "0 < hist_total r nl"
    and small: "hist_total h nl < 2 ^ 31"
  shows "0 \<le> calculate_gain
           (calculate_shannon_entropy (normalized_of h nl) nl) (fst (histogram_sums h nl))
           (calculate_shannon_entropy (normalized_of l nl) nl) (fst (histogram_sums l nl))
           (calculate_shannon_entropy (normalized_of r nl) nl) (fst (histogram_sums r nl))"
proof -
  let ?N = "hist_total h nl" and ?L = "hist_total l nl" and ?R = "hist_total r nl"
  let ?Hh = "calculate_shannon_entropy (normalized_of h nl) nl"
  let ?Hl = "calculate_shannon_entropy (normalized_of l nl) nl"
  let ?Hr = "calculate_shannon_entropy (normalized_of r nl) nl"
  have N: "?N = ?L + ?R"
    using split by (simp add: hist_total_def sum.distrib[symmetric])
  then have bounds: "0 < ?N" "?L < 2 ^ 31" "?R < 2 ^ 31" "?N < 2 ^ 32" "?L < 2 ^ 32" "?R < 2 ^ 32"
    using nontrivial small by simp_all
  have u: "unat (fst (histogram_sums h nl)) = ?N" "unat (fst (histogram_sums l nl)) = ?L"
    "unat (fst (histogram_sums r nl)) = ?R"
    using bounds by (simp_all add: histogram_sums_total len unat_of_nat_u32)
  define g where "g = ?Hh - (real ?L / real ?N * ?Hl + real ?R / real ?N * ?Hr)"
  have gain: "calculate_gain ?Hh (fst (histogram_sums h nl)) ?Hl (fst (histogram_sums l nl))
      ?Hr (fst (histogram_sums r nl)) = g"
    by (simp add: calculate_gain_def u g_def)
  have "g * real ?N * ln 2 = ?Hh * real ?N * ln 2 - ?Hl * real ?L * ln 2 - ?Hr * real ?R * ln 2"
    using bounds(1) by (simp add: g_def field_simps)
  also have "\<dots> = (\<Sum>k = 0..<unat nl.
        xlnx (real (unat (l ! k))) (real ?L) + xlnx (real (unat (r ! k))) (real ?R) -
        xlnx (real (unat (h ! k))) (real ?N))"
    unfolding entropy_scaled[OF len(1) bounds(1) small]
      entropy_scaled[OF len(2) nontrivial(1) bounds(2)]
      entropy_scaled[OF len(3) nontrivial(2) bounds(3)]
    by (simp add: sum.distrib sum_subtractf)
  also have "\<dots> \<ge> 0"
  proof (rule sum_nonneg)
    fix k assume "k \<in> {0..<unat nl}"
    then have "unat (h ! k) = unat (l ! k) + unat (r ! k)"
      using split by simp
    then have hk: "real (unat (h ! k)) = real (unat (l ! k)) + real (unat (r ! k))"
      by (simp only: of_nat_add)
    have Nr: "real ?N = real ?L + real ?R" by (simp only: N of_nat_add)
    have "0 \<le> xlnx (real (unat (l ! k))) (real ?L) + xlnx (real (unat (r ! k))) (real ?R) -
        xlnx (real (unat (l ! k)) + real (unat (r ! k))) (real ?L + real ?R)"
    proof (rule term_nonneg[OF of_nat_0_le_iff of_nat_0_le_iff])
      show "0 < real ?L" using nontrivial(1) by simp
      show "0 < real ?R" using nontrivial(2) by simp
    qed
    then show "0 \<le> xlnx (real (unat (l ! k))) (real ?L) + xlnx (real (unat (r ! k))) (real ?R) -
        xlnx (real (unat (h ! k))) (real ?N)"
      by (simp only: hk Nr)
  qed
  finally have "0 \<le> g * (real ?N * ln 2)" by (simp add: mult.assoc)
  moreover have "0 < real ?N * ln 2" using bounds(1) by simp
  ultimately have "0 \<le> g" by (simp add: zero_le_mult_iff)
  then show ?thesis by (simp only: gain)
qed

lemma entropy_of_normalize_histogram:
  assumes "unat nl \<le> length buf"
  shows "calculate_shannon_entropy (snd (normalize_histogram h nl buf)) nl =
         calculate_shannon_entropy (normalized_of h nl) nl"
proof -
  have len: "length (normalized_of h nl) = unat nl"
    by (simp add: normalized_of_def)
  show ?thesis
    unfolding entropy_as_sum normalize_histogram_snd[OF assms]
    by (rule sum.cong) (simp_all add: nth_append len)
qed

lemma candidate_gain_nonneg:
  assumes len: "unat nl \<le> length h" "unat nl \<le> length l" "unat nl \<le> length r"
    and bufs: "unat nl \<le> length b0" "unat nl \<le> length b1"
    and split: "\<forall>k<unat nl. unat (h ! k) = unat (l ! k) + unat (r ! k)"
    and nontrivial: "0 < hist_total l nl" "0 < hist_total r nl"
    and small: "hist_total h nl < 2 ^ 31"
  shows "0 \<le> calculate_gain
           (calculate_shannon_entropy (snd (normalize_histogram h nl b0)) nl)
           (fst (fst (normalize_histogram h nl b0)))
           (calculate_shannon_entropy (snd (normalize_histogram l nl b1)) nl)
           (fst (fst (normalize_histogram l nl b1)))
           (calculate_shannon_entropy
              (snd (normalize_histogram r nl (snd (normalize_histogram l nl b1)))) nl)
           (fst (fst (normalize_histogram r nl (snd (normalize_histogram l nl b1)))))"
proof -
  have b2: "unat nl \<le> length (snd (normalize_histogram l nl b1))"
    using bufs(2) by simp
  show ?thesis
    unfolding entropy_of_normalize_histogram[OF bufs(1)] entropy_of_normalize_histogram[OF bufs(2)]
      entropy_of_normalize_histogram[OF b2] normalize_histogram_fst
    by (rule gain_nonneg_exact[OF len split nontrivial small])
qed

end
